(* ===== verification/Prelude.thy ===== *)
theory Prelude
  imports Main "HOL-Library.State_Monad" "HOL-Library.Word"
begin

text \<open>
  Shared vocabulary of the development.

  \<^item> The machine integers of the source (\<open>int32\<close> replica counts, \<open>time.Duration\<close> as a signed
    64-bit count of nanoseconds) as words, compared with the signed orders.
  \<^item> Effects. Every function of the controller that talks to the cluster is a program of the state
    monad over a \<open>world\<close>: the environment behind the client interface, of an arbitrary type
    \<open>'s\<close>, and the chronological \<open>trace\<close> of the client calls made so far, each with the answer it
    got. An operation of the environment may change \<open>'s\<close> in any way, so other actors of the
    cluster may act between any two calls.
  \<^item> \<open>emits m Q\<close>: whatever the environment answers, program \<open>m\<close> extends the trace by some list
    \<open>l\<close> of calls and returns \<open>r\<close> with \<open>Q r l\<close>. Its rules, collected in \<open>emits_intros\<close>, are the
    verification conditions of the component proofs.
\<close>

named_theorems emits_intros "backward rules of the trace logic"
named_theorems key_simps "distinctness of the annotation keys and state names"
named_theorems wl_simps "field laws of the workload wrappers"

section \<open>Machine integers\<close>

type_synonym int32 = "32 word"
type_synonym Duration = "64 word"

lemma word_sless_iff_sint [simp]: "a <s b \<longleftrightarrow> sint a < sint b"
  by (simp add: word_sless_alt)

lemma word_sle_iff_sint [simp]: "a \<le>s b \<longleftrightarrow> sint a \<le> sint b"
  by (simp add: word_sle_eq)

lemma sint32_range: "- (2 ^ 31) \<le> sint (n :: int32)" "sint (n :: int32) < 2 ^ 31"
  using sint_range_size [of n] by (simp_all add: word_size)

lemma sint64_range: "- (2 ^ 63) \<le> sint (n :: Duration)" "sint (n :: Duration) < 2 ^ 63"
  using sint_range_size [of n] by (simp_all add: word_size)

lemma sint_word_of_int_id:
  assumes "- (2 ^ (LENGTH('a::len) - 1)) \<le> x" and "x < 2 ^ (LENGTH('a) - 1)"
  shows "sint (word_of_int x :: 'a word) = x"
  using assms by (simp add: sint_sbintrunc' signed_take_bit_int_eq_self_iff)

lemma word_of_int_sint_int32 [simp]: "word_of_int (sint (n :: int32)) = n"
  by simp

section \<open>Programs and their traces\<close>

record ('s, 'c) world =
  env :: 's
  trace :: "'c list"

type_synonym ('s, 'c, 'a) prog = "(('s, 'c) world, 'a) state"

abbreviation ret :: "'a \<Rightarrow> ('w, 'a) state" where
  "ret \<equiv> State_Monad.return"

text \<open>One call of the environment: run the operation and append the call, with its answer.\<close>

definition call :: "('r \<Rightarrow> 'c) \<Rightarrow> ('s, 'r) state \<Rightarrow> ('s, 'c, 'r) prog" where
  "call mk m = State (\<lambda>w. case run_state m (env w) of
     (r, e) \<Rightarrow> (r, w\<lparr>env := e, trace := trace w @ [mk r]\<rparr>))"

text \<open>The Go idiom \<^verbatim>\<open>x, err := m; if err != nil { return ..., wrap(err) }\<close>.\<close>

definition checked ::
  "('e \<Rightarrow> 'e) \<Rightarrow> ('w, 'e + 'a) state \<Rightarrow> ('a \<Rightarrow> ('w, 'e + 'b) state) \<Rightarrow> ('w, 'e + 'b) state" where
  "checked wrap m f = do {
     r \<leftarrow> m;
     (case r of Inl e \<Rightarrow> ret (Inl (wrap e)) | Inr x \<Rightarrow> f x)
   }"

definition emits :: "('s, 'c, 'a) prog \<Rightarrow> ('a \<Rightarrow> 'c list \<Rightarrow> bool) \<Rightarrow> bool" where
  "emits m Q \<longleftrightarrow> (\<forall>w. \<exists>l. trace (snd (run_state m w)) = trace w @ l \<and> Q (fst (run_state m w)) l)"

lemma run_state_call [simp]:
  "run_state (call mk m) w =
     (fst (run_state m (env w)),
      w\<lparr>env := snd (run_state m (env w)), trace := trace w @ [mk (fst (run_state m (env w)))]\<rparr>)"
  by (simp add: call_def split: prod.split)

lemma emitsI:
  "(\<And>w. \<exists>l. trace (snd (run_state m w)) = trace w @ l \<and> Q (fst (run_state m w)) l) \<Longrightarrow> emits m Q"
  by (simp add: emits_def)

lemma emitsD:
  "emits m Q \<Longrightarrow> run_state m w = (r, w') \<Longrightarrow> \<exists>l. trace w' = trace w @ l \<and> Q r l"
  unfolding emits_def by (metis fst_conv snd_conv)

lemma emits_trace: "emits m Q \<Longrightarrow> trace (snd (run_state m w)) = trace w @ l \<Longrightarrow> Q (fst (run_state m w)) l"
  unfolding emits_def by (metis same_append_eq)

lemma emits_start: "emits m Q \<Longrightarrow> Q (fst (run_state m \<lparr>env = e, trace = []\<rparr>)) (trace (snd (run_state m \<lparr>env = e, trace = []\<rparr>)))"
  unfolding emits_def by (metis append_Nil select_convs(2))

lemma emits_mono: "emits m P \<Longrightarrow> (\<And>a l. P a l \<Longrightarrow> Q a l) \<Longrightarrow> emits m Q"
  unfolding emits_def by meson

lemma emits_conj: "emits m P \<Longrightarrow> emits m Q \<Longrightarrow> emits m (\<lambda>a l. P a l \<and> Q a l)"
  unfolding emits_def by (metis append_eq_append_conv)

lemma emits_return [emits_intros]: "Q a [] \<Longrightarrow> emits (ret a) Q"
  by (simp add: emits_def)

lemma emits_call [emits_intros]: "(\<And>r. Q r [mk r]) \<Longrightarrow> emits (call mk m) Q"
  by (simp add: emits_def)

lemma emits_bind [emits_intros]:
  assumes "emits m (\<lambda>a l. emits (f a) (\<lambda>b l'. Q b (l @ l')))"
  shows "emits (State_Monad.bind m f) Q"
proof (rule emitsI)
  fix w
  obtain a w1 where m: "run_state m w = (a, w1)" by fastforce
  obtain b w2 where f: "run_state (f a) w1 = (b, w2)" by fastforce
  from emitsD [OF assms m] obtain l where
    l: "trace w1 = trace w @ l" "emits (f a) (\<lambda>b l'. Q b (l @ l'))" by blast
  from emitsD [OF l(2) f] obtain l' where "trace w2 = trace w1 @ l'" "Q b (l @ l')" by blast
  with m f l(1) show "\<exists>l. trace (snd (run_state (State_Monad.bind m f) w)) = trace w @ l \<and>
      Q (fst (run_state (State_Monad.bind m f) w)) l"
    by simp
qed

lemma emits_checked [emits_intros]:
  assumes "emits m (\<lambda>r l. case r of
      Inl e \<Rightarrow> Q (Inl (wrap e)) l
    | Inr x \<Rightarrow> emits (f x) (\<lambda>b l'. Q b (l @ l')))"
  shows "emits (checked wrap m f) Q"
  unfolding checked_def
  by (rule emits_bind, rule emits_mono [OF assms]) (auto split: sum.splits intro: emits_return)

lemma emits_if [emits_intros]:
  "(b \<Longrightarrow> emits x Q) \<Longrightarrow> (\<not> b \<Longrightarrow> emits y Q) \<Longrightarrow> emits (if b then x else y) Q"
  by simp

lemma emits_case_sum [emits_intros]:
  "(\<And>e. r = Inl e \<Longrightarrow> emits (f e) Q) \<Longrightarrow> (\<And>x. r = Inr x \<Longrightarrow> emits (g x) Q) \<Longrightarrow>
   emits (case r of Inl e \<Rightarrow> f e | Inr x \<Rightarrow> g x) Q"
  by (cases r) simp_all

lemma emits_case_option [emits_intros]:
  "(r = None \<Longrightarrow> emits f Q) \<Longrightarrow> (\<And>x. r = Some x \<Longrightarrow> emits (g x) Q) \<Longrightarrow>
   emits (case r of None \<Rightarrow> f | Some x \<Rightarrow> g x) Q"
  by (cases r) simp_all

lemma emits_case_prod [emits_intros]:
  "(\<And>a b. r = (a, b) \<Longrightarrow> emits (f a b) Q) \<Longrightarrow> emits (case r of (a, b) \<Rightarrow> f a b) Q"
  by (cases r) simp

lemma emits_Let [emits_intros]: "(\<And>x. x = t \<Longrightarrow> emits (f x) Q) \<Longrightarrow> emits (let x = t in f x) Q"
  by simp

text \<open>The conjunction of the verification conditions of \<open>emits_checked\<close>, as a rule.\<close>

lemma case_sumI:
  "(\<And>e. r = Inl e \<Longrightarrow> P e) \<Longrightarrow> (\<And>x. r = Inr x \<Longrightarrow> Q x) \<Longrightarrow> (case r of Inl e \<Rightarrow> P e | Inr x \<Rightarrow> Q x)"
  by (cases r) simp_all

lemma case_sum_InlI: "P e \<Longrightarrow> (case Inl e of Inl e \<Rightarrow> P e | Inr x \<Rightarrow> Q x)"
  by simp

lemma case_sum_InrI: "Q x \<Longrightarrow> (case Inr x of Inl e \<Rightarrow> P e | Inr x \<Rightarrow> Q x)"
  by simp

lemmas case_vc = case_sum_InlI case_sum_InrI

lemma case_sum_InrD: "(case r of Inl e \<Rightarrow> P e | Inr x \<Rightarrow> Q x) \<Longrightarrow> r = Inr y \<Longrightarrow> Q y"
  by simp

end
