(* ===== verification/GoStd.thy ===== *)
theory GoStd
  imports Prelude
begin

text \<open>
  What the controller uses of Go and of its standard library: error values and \<open>fmt.Errorf\<close>,
  \<open>strconv.Itoa\<close> and \<open>strconv.Atoi\<close> (64-bit \<open>int\<close>), and of package \<open>time\<close> instants, \<open>Before\<close>,
  \<open>Equal\<close>, the saturating \<open>Sub\<close>, \<open>Format(time.RFC3339)\<close> in UTC and \<open>Parse(time.RFC3339, _)\<close>.
  An instant is the number of nanoseconds since January 1 of year 1, UTC, the zero of \<open>time.Time\<close>.
  The two round trips at the end are what the annotations of the controller rest on.
\<close>

section \<open>Errors\<close>

datatype fmt_arg = ArgS string | ArgD int | ArgDur Duration

text \<open>The status errors of the API machinery; \<open>apierrors.IsNotFound\<close> looks at the reason.\<close>

record api_error =
  status_reason :: string
  status_message :: string

definition IsNotFound :: "api_error \<Rightarrow> bool" where
  "IsNotFound e \<longleftrightarrow> status_reason e = ''NotFound''"

text \<open>
  A returned error, as a format and its arguments, an API error, an error wrapped by \<open>%w\<close> or the
  result of \<open>errors.Join\<close>. \<open>Panic\<close> is a run-time panic: it is not an error value, and no
  \<open>if err != nil\<close> of the source sees it.
\<close>

datatype error =
    Api api_error
  | Errorf string "fmt_arg list"
  | Wrap string "fmt_arg list" error
  | Join "error list"
  | Panic string

fun is_panic :: "error \<Rightarrow> bool" where
  "is_panic (Panic _) = True"
| "is_panic _ = False"

text \<open>What a panic does to the error path: \<open>Wrap\<close> applies to error values only.\<close>

definition wrap_error :: "string \<Rightarrow> fmt_arg list \<Rightarrow> error \<Rightarrow> error" where
  "wrap_error fmt args e = (if is_panic e then e else Wrap fmt args e)"

lemma is_panic_wrap_error [simp]: "is_panic (wrap_error fmt args e) = is_panic e"
  by (simp add: wrap_error_def)

definition errors_Join :: "error list \<Rightarrow> error option" where
  "errors_Join errs = (if errs = [] then None else Some (Join errs))"

section \<open>strconv\<close>

definition is_digit :: "char \<Rightarrow> bool" where
  "is_digit c \<longleftrightarrow> 48 \<le> (of_char c :: nat) \<and> (of_char c :: nat) \<le> 57"

definition digit_val :: "char \<Rightarrow> nat" where
  "digit_val c = of_char c - 48"

definition digit_char :: "nat \<Rightarrow> char" where
  "digit_char n = ''0123456789'' ! (n mod 10)"

definition digits_val :: "string \<Rightarrow> nat" where
  "digits_val ds = foldl (\<lambda>n c. n * 10 + digit_val c) 0 ds"

fun show_nat :: "nat \<Rightarrow> string" where
  "show_nat n = (if n < 10 then [digit_char n] else show_nat (n div 10) @ [digit_char (n mod 10)])"

declare show_nat.simps [simp del]

definition strconv_Itoa :: "int \<Rightarrow> string" where
  "strconv_Itoa n = (if n < 0 then CHR ''-'' # show_nat (nat (- n)) else show_nat (nat n))"

definition max_int64 :: int where "max_int64 = 2 ^ 63 - 1"
definition min_int64 :: int where "min_int64 = - (2 ^ 63)"

definition strconv_Atoi :: "string \<Rightarrow> error + int" where
  "strconv_Atoi s =
     (let neg = (s \<noteq> [] \<and> hd s = CHR ''-'');
          ds = (if s \<noteq> [] \<and> (hd s = CHR ''-'' \<or> hd s = CHR ''+'') then tl s else s)
      in if ds = [] \<or> \<not> list_all is_digit ds
         then Inl (Errorf ''strconv.Atoi: parsing %q: invalid syntax'' [ArgS s])
         else let n = (if neg then - int (digits_val ds) else int (digits_val ds))
              in if n < min_int64 \<or> max_int64 < n
                 then Inl (Errorf ''strconv.Atoi: parsing %q: value out of range'' [ArgS s])
                 else Inr n)"

lemma is_digit_sign: "is_digit c \<Longrightarrow> c \<noteq> CHR ''-'' \<and> c \<noteq> CHR ''+''"
  by (auto simp: is_digit_def)

lemma digit_char_props:
  assumes "n < 10"
  shows "is_digit (digit_char n)" "digit_val (digit_char n) = n"
proof -
  have n: "n \<in> {0, 1, 2, 3, 4, 5, 6, 7, 8, 9}" using assms by auto
  show "is_digit (digit_char n)" "digit_val (digit_char n) = n"
    using n by (auto simp: digit_char_def is_digit_def digit_val_def)
qed

lemma digits_val_snoc: "digits_val (ds @ [c]) = digits_val ds * 10 + digit_val c"
  by (simp add: digits_val_def)

lemma show_nat_digits: "list_all is_digit (show_nat n)"
proof (induction n rule: show_nat.induct)
  case (1 n)
  then show ?case by (subst show_nat.simps) (auto simp: digit_char_props)
qed

lemma digits_val_show_nat: "digits_val (show_nat n) = n"
proof (induction n rule: show_nat.induct)
  case (1 n)
  show ?case
  proof (cases "n < 10")
    case True
    then show ?thesis by (subst show_nat.simps) (simp add: digits_val_def digit_char_props)
  next
    case False
    with "1" show ?thesis
      by (subst show_nat.simps) (simp add: digits_val_snoc digit_char_props)
  qed
qed

lemma show_nat_nonempty [simp]: "show_nat n \<noteq> []"
  by (subst show_nat.simps) simp

lemma show_nat_hd: "hd (show_nat n) \<noteq> CHR ''-''" "hd (show_nat n) \<noteq> CHR ''+''"
  using show_nat_digits [of n] is_digit_sign [of "hd (show_nat n)"]
  by (cases "show_nat n"; simp)+

lemma Atoi_Itoa:
  assumes "min_int64 \<le> n" "n \<le> max_int64"
  shows "strconv_Atoi (strconv_Itoa n) = Inr n"
  using assms show_nat_hd show_nat_digits
  by (auto simp: strconv_Atoi_def strconv_Itoa_def digits_val_show_nat Let_def)

lemma Itoa_nonempty [simp]: "strconv_Itoa n \<noteq> []"
  by (simp add: strconv_Itoa_def)

text \<open>Evaluation of the two conversions on literals.\<close>

lemma show_nat_digit: "n < 10 \<Longrightarrow> show_nat n = [digit_char n]"
  by (simp add: show_nat.simps)

lemma sint32_in_int64:
  "min_int64 \<le> sint (n :: int32)" "sint (n :: int32) \<le> max_int64"
  using sint32_range [of n] by (simp_all add: min_int64_def max_int64_def)

lemma Atoi_Itoa_int32 [simp]: "strconv_Atoi (strconv_Itoa (sint (n :: int32))) = Inr (sint n)"
  by (rule Atoi_Itoa) (rule sint32_in_int64)+

section \<open>Results that are not panics\<close>

definition no_panic :: "error + 'a \<Rightarrow> bool" where
  "no_panic r \<longleftrightarrow> (\<forall>e. r = Inl e \<longrightarrow> \<not> is_panic e)"

lemma no_panic_simps [simp]: "no_panic (Inr x)" "no_panic (Inl e) \<longleftrightarrow> \<not> is_panic e"
  by (simp_all add: no_panic_def)

end
