(* ===== verification/GoTime.thy ===== *)
theory GoTime
  imports GoStd
begin

text \<open>
  Package \<open>time\<close> as the controller uses it. \<open>Format(time.RFC3339)\<close> of a UTC time prints whole
  seconds; \<open>Parse(time.RFC3339, _)\<close> follows the layout chunk by chunk, with the leniency of Go's
  parser (a one-digit hour, a fraction of any length after a dot or comma, numeric offsets up to
  24:60). The main result is \<open>Parse_Format\<close>: a formatted instant of the years 0 to 9999 parses
  back to itself, cut to whole seconds.
\<close>

type_synonym Time = int

abbreviation nanos :: int where "nanos \<equiv> 1000000000"
abbreviation secs_per_day :: int where "secs_per_day \<equiv> 86400"

definition time_Before :: "Time \<Rightarrow> Time \<Rightarrow> bool" where
  "time_Before t u \<longleftrightarrow> t < u"

definition time_Equal :: "Time \<Rightarrow> Time \<Rightarrow> bool" where
  "time_Equal t u \<longleftrightarrow> t = u"

text \<open>\<open>t.Sub(u)\<close> saturates at the ends of \<open>time.Duration\<close>.\<close>

definition time_Sub :: "Time \<Rightarrow> Time \<Rightarrow> Duration" where
  "time_Sub t u = word_of_int (max min_int64 (min max_int64 (t - u)))"

lemma sint_time_Sub: "sint (time_Sub t u) = max min_int64 (min max_int64 (t - u))"
  unfolding time_Sub_def
  by (rule sint_word_of_int_id) (auto simp: min_int64_def max_int64_def)

lemma time_Sub_less:
  "min_int64 < sint (d :: Duration) \<Longrightarrow> sint (time_Sub t u) < sint d \<longleftrightarrow> t - u < sint d"
  using sint64_range [of d] unfolding sint_time_Sub by (auto simp: min_int64_def max_int64_def)

lemma time_Sub_greater:
  "sint (d :: Duration) < max_int64 \<Longrightarrow> sint d < sint (time_Sub t u) \<longleftrightarrow> sint d < t - u"
  using sint64_range [of d] unfolding sint_time_Sub by (auto simp: min_int64_def max_int64_def)

section \<open>The calendar\<close>

definition is_leap :: "int \<Rightarrow> bool" where
  "is_leap y \<longleftrightarrow> y mod 4 = 0 \<and> (y mod 100 \<noteq> 0 \<or> y mod 400 = 0)"

definition year_days :: "int \<Rightarrow> int" where
  "year_days y = (if is_leap y then 366 else 365)"

definition days_before_year :: "int \<Rightarrow> int" where
  "days_before_year y = 365 * (y - 1) + (y - 1) div 4 - (y - 1) div 100 + (y - 1) div 400"

definition month_lengths :: "int \<Rightarrow> int list" where
  "month_lengths y = [31, if is_leap y then 29 else 28, 31, 30, 31, 30, 31, 31, 30, 31, 30, 31]"

definition days_in :: "int \<Rightarrow> int \<Rightarrow> int" where
  "days_in m y = month_lengths y ! nat (m - 1)"

definition days_of_date :: "int \<Rightarrow> int \<Rightarrow> int \<Rightarrow> int" where
  "days_of_date y m d = days_before_year y + sum_list (take (nat (m - 1)) (month_lengths y)) + d - 1"

text \<open>Year and day of the year, by cutting off cycles of 400, 100, 4 and 1 years.\<close>

definition year_yday :: "int \<Rightarrow> int \<times> int" where
  "year_yday D =
     (let a = D div 146097; d = D mod 146097;
          b = min 3 (d div 36524); d = d - 36524 * b;
          c = d div 1461; d = d mod 1461;
          e = min 3 (d div 365); d = d - 365 * e
      in (400 * a + 100 * b + 4 * c + e + 1, d))"

fun month_day_from :: "int \<Rightarrow> int list \<Rightarrow> int \<Rightarrow> int \<times> int" where
  "month_day_from m [] d = (m, d + 1)"
| "month_day_from m (n # ns) d = (if d < n then (m, d + 1) else month_day_from (m + 1) ns (d - n))"

definition date_of_days :: "int \<Rightarrow> int \<times> int \<times> int" where
  "date_of_days D = (let (y, yd) = year_yday D; (m, d) = month_day_from 1 (month_lengths y) yd in (y, m, d))"

section \<open>Formatting\<close>

definition append_int :: "nat \<Rightarrow> int \<Rightarrow> string" where
  "append_int width n =
     (let ds = show_nat (nat \<bar>n\<bar>)
      in (if n < 0 then ''-'' else []) @ replicate (width - length ds) (CHR ''0'') @ ds)"

definition time_Format_RFC3339 :: "Time \<Rightarrow> string" where
  "time_Format_RFC3339 t =
     (let s = t div nanos; (y, m, d) = date_of_days (s div secs_per_day); r = s mod secs_per_day
      in append_int 4 y @ ''-'' @ append_int 2 m @ ''-'' @ append_int 2 d @ ''T'' @
         append_int 2 (r div 3600) @ '':'' @ append_int 2 (r div 60 mod 60) @ '':'' @
         append_int 2 (r mod 60) @ ''Z'')"

section \<open>Parsing\<close>

text \<open>\<open>getnum\<close> of package time: two digits, or one where the layout does not fix the width.\<close>

fun getnum :: "bool \<Rightarrow> string \<Rightarrow> (int \<times> string) option" where
  "getnum fixed [] = None"
| "getnum fixed [c] = (if is_digit c \<and> \<not> fixed then Some (int (digit_val c), []) else None)"
| "getnum fixed (c # d # s) =
     (if \<not> is_digit c then None
      else if \<not> is_digit d then (if fixed then None else Some (int (digit_val c), d # s))
      else Some (int (digit_val c * 10 + digit_val d), s))"

definition getnum_max :: "bool \<Rightarrow> int \<Rightarrow> string \<Rightarrow> (int \<times> string) option" where
  "getnum_max fixed hi s =
     (case getnum fixed s of None \<Rightarrow> None | Some (n, s') \<Rightarrow> if n \<le> hi then Some (n, s') else None)"

definition skip_char :: "char \<Rightarrow> string \<Rightarrow> string option" where
  "skip_char c s = (case s of [] \<Rightarrow> None | x # xs \<Rightarrow> if x = c then Some xs else None)"

definition parse_year :: "string \<Rightarrow> (int \<times> string) option" where
  "parse_year s =
     (if length s < 4 \<or> \<not> list_all is_digit (take 4 s) then None
      else Some (int (digits_val (take 4 s)), drop 4 s))"

text \<open>The fraction that may follow the seconds, in nanoseconds; digits after the ninth are cut.\<close>

definition parse_fraction :: "string \<Rightarrow> int \<times> string" where
  "parse_fraction s =
     (case s of
        p # c # s' \<Rightarrow>
          (if (p = CHR ''.'' \<or> p = CHR '','') \<and> is_digit c
           then let ds = takeWhile is_digit (c # s'); ns = take 9 ds
                in (int (digits_val ns) * 10 ^ (9 - length ns), drop (length ds) (c # s'))
           else (0, s))
      | _ \<Rightarrow> (0, s))"

text \<open>\<open>Z\<close> or a numeric offset, in seconds east of UTC; the rest of the text must be empty.\<close>

definition parse_zone :: "string \<Rightarrow> int option" where
  "parse_zone s =
     (case s of
        [] \<Rightarrow> None
      | z # rest \<Rightarrow>
          (if z = CHR ''Z'' then (if rest = [] then Some 0 else None)
           else if length s \<noteq> 6 \<or> s ! 3 \<noteq> CHR '':'' \<or> (z \<noteq> CHR ''+'' \<and> z \<noteq> CHR ''-'') then None
           else (case (getnum_max True 24 (take 2 rest), getnum_max True 60 (drop 3 rest)) of
                   (Some (hr, _), Some (mm, _)) \<Rightarrow>
                     Some ((if z = CHR ''-'' then - 1 else 1) * ((hr * 60 + mm) * 60))
                 | _ \<Rightarrow> None)))"

definition time_Parse_RFC3339 :: "string \<Rightarrow> Time option" where
  "time_Parse_RFC3339 s = do {
     (y, s) \<leftarrow> parse_year s;
     s \<leftarrow> skip_char (CHR ''-'') s;
     (m, s) \<leftarrow> getnum_max True 12 s;
     s \<leftarrow> (if m \<le> 0 then None else skip_char (CHR ''-'') s);
     (d, s) \<leftarrow> getnum True s;
     s \<leftarrow> skip_char (CHR ''T'') s;
     (hh, s) \<leftarrow> getnum_max False 23 s;
     s \<leftarrow> skip_char (CHR '':'') s;
     (mm, s) \<leftarrow> getnum_max True 59 s;
     s \<leftarrow> skip_char (CHR '':'') s;
     (ss, s) \<leftarrow> getnum_max True 59 s;
     let (ns, s) = parse_fraction s;
     off \<leftarrow> parse_zone s;
     (if d < 1 \<or> days_in m y < d then None
      else Some ((days_of_date y m d * secs_per_day + hh * 3600 + mm * 60 + ss - off) * nanos + ns))
   }"

section \<open>Correctness of the calendar\<close>

lemma year_yday_correct:
  assumes "year_yday D = (y, yd)"
  shows "D = days_before_year y + yd" "0 \<le> yd" "yd < year_days y"
proof -
  define a where "a = D div 146097"
  define r where "r = D mod 146097"
  define b where "b = min 3 (r div 36524)"
  define s where "s = r - 36524 * b"
  define c where "c = s div 1461"
  define t where "t = s mod 1461"
  define e where "e = min 3 (t div 365)"
  have y: "y = 400 * a + 100 * b + 4 * c + e + 1" and yd: "yd = t - 365 * e"
  proof -
    have "year_yday D = (400 * a + 100 * b + 4 * c + e + 1, t - 365 * e)"
      unfolding year_yday_def Let_def e_def t_def c_def s_def b_def r_def a_def by (rule refl)
    with assms show "y = 400 * a + 100 * b + 4 * c + e + 1" "yd = t - 365 * e"
      by (simp_all only: prod.inject)
  qed
  have D: "D = 146097 * a + r" by (simp add: a_def r_def)
  have r: "0 \<le> r" "r < 146097" by (simp_all add: r_def)
  have b: "0 \<le> b" "b \<le> 3" using r by (auto simp: b_def)
  have s: "0 \<le> s" "s \<le> 36524" "b < 3 \<Longrightarrow> s < 36524"
    using r unfolding s_def b_def by (auto simp: min_def split: if_splits)
  have st: "s = 1461 * c + t" by (simp add: c_def t_def)
  have t: "0 \<le> t" "t < 1461" by (simp_all add: t_def)
  have c: "0 \<le> c" "c \<le> 24" using s st t by linarith+
  have e: "0 \<le> e" "e \<le> 3" using t by (auto simp: e_def)
  have yd0: "0 \<le> yd" "yd \<le> 365" "e < 3 \<Longrightarrow> yd < 365"
    using t unfolding yd e_def by (auto simp: min_def split: if_splits)
  have div4: "(y - 1) div 4 = 100 * a + 25 * b + c" and div100: "(y - 1) div 100 = 4 * a + b"
    and div400: "(y - 1) div 400 = a"
  proof -
    have "y - 1 = e + 4 * (100 * a + 25 * b + c)" using y by simp
    then show "(y - 1) div 4 = 100 * a + 25 * b + c" using e by simp
    have "y - 1 = (4 * c + e) + 100 * (4 * a + b)" using y by simp
    then show "(y - 1) div 100 = 4 * a + b" using c e by simp
    have "y - 1 = (100 * b + 4 * c + e) + 400 * a" using y by simp
    then show "(y - 1) div 400 = a" using b c e by simp
  qed
  have "days_before_year y = 365 * (y - 1) + (100 * a + 25 * b + c) - (4 * a + b) + a"
    by (simp only: days_before_year_def div4 div100 div400)
  moreover have "r = 36524 * b + 1461 * c + t" using st s_def by simp
  ultimately show "D = days_before_year y + yd" using D y yd by simp
  show "0 \<le> yd" by (fact yd0(1))
  have leap: "is_leap y" if "e = 3" "c < 24 \<or> b = 3"
  proof -
    have "y = 4 * (100 * a + 25 * b + c + 1)" using y that(1) by simp
    then have "y mod 4 = 0" by simp
    moreover have "y mod 100 \<noteq> 0 \<or> y mod 400 = 0"
    proof (cases "c < 24")
      case True
      then have "y = 100 * (4 * a + b) + (4 * c + 4)" "0 < 4 * c + 4" "4 * c + 4 < 100"
        using y that(1) c by simp_all
      then show ?thesis by (metis mod_mult_self4 mod_pos_pos_trivial less_le)
    next
      case False
      then have "y = 400 * (a + 1)" using y that c by simp
      then show ?thesis by simp
    qed
    ultimately show ?thesis by (simp add: is_leap_def)
  qed
  show "yd < year_days y"
  proof (cases "e = 3 \<and> (c < 24 \<or> b = 3)")
    case True
    with leap yd0(2) show ?thesis by (auto simp: year_days_def)
  next
    case False
    have "yd < 365"
    proof (cases "e = 3")
      case True
      with False b c have "c = 24" "b < 3" by linarith+
      with s(3) st True yd show ?thesis by linarith
    next
      case False
      with e yd0(3) show ?thesis by simp
    qed
    then show ?thesis by (simp add: year_days_def)
  qed
qed

lemma sum_month_lengths: "sum_list (month_lengths y) = year_days y"
  by (simp add: month_lengths_def year_days_def)

lemma month_day_from_correct:
  assumes "month_day_from k ns d = (m, d')" "0 \<le> d" "d < sum_list ns"
  shows "k \<le> m \<and> m < k + int (length ns) \<and> 1 \<le> d' \<and> d' \<le> ns ! nat (m - k) \<and>
    sum_list (take (nat (m - k)) ns) + d' - 1 = d"
  using assms
proof (induction k ns d rule: month_day_from.induct)
  case (1 k d)
  then show ?case by simp
next
  case (2 k n ns d)
  show ?case
  proof (cases "d < n")
    case True
    with 2 show ?thesis by auto
  next
    case False
    with 2 have IH: "k + 1 \<le> m \<and> m < k + 1 + int (length ns) \<and> 1 \<le> d' \<and> d' \<le> ns ! nat (m - (k + 1)) \<and>
        sum_list (take (nat (m - (k + 1))) ns) + d' - 1 = d - n"
      by auto
    then have "nat (m - k) = Suc (nat (m - (k + 1)))" by linarith
    with IH show ?thesis by auto
  qed
qed

lemma date_of_days_correct:
  assumes "date_of_days D = (y, m, d)"
  shows "days_of_date y m d = D" "1 \<le> m" "m \<le> 12" "1 \<le> d" "d \<le> days_in m y"
    "days_before_year y \<le> D" "D < days_before_year y + year_days y"
proof -
  obtain yd where yd: "year_yday D = (y, yd)" and md: "month_day_from 1 (month_lengths y) yd = (m, d)"
    using assms by (auto simp: date_of_days_def Let_def split: prod.splits)
  note Y = year_yday_correct [OF yd]
  note M = month_day_from_correct [OF md Y(2), unfolded sum_month_lengths, OF Y(3)]
  from M show "1 \<le> m" "1 \<le> d" "d \<le> days_in m y" by (simp_all add: days_in_def)
  from M show "m \<le> 12" by (simp add: month_lengths_def)
  from M Y(1) show "days_of_date y m d = D" by (simp add: days_of_date_def)
  from Y show "days_before_year y \<le> D" "D < days_before_year y + year_days y" by linarith+
qed

section \<open>The round trip\<close>

lemma div_succ_int:
  fixes k :: int
  assumes "0 < k"
  shows "(x + 1) div k = x div k + (if (x + 1) mod k = 0 then 1 else 0)"
proof -
  define q where "q = x div k"
  define r where "r = x mod k"
  have x: "x = q * k + r" and r: "0 \<le> r" "r < k" using assms by (simp_all add: q_def r_def)
  show ?thesis
  proof (cases "r + 1 = k")
    case True
    then have "x + 1 = (q + 1) * k" using x by (simp add: algebra_simps)
    then show ?thesis using assms by (simp add: q_def [symmetric])
  next
    case False
    with r have r': "0 \<le> r + 1" "r + 1 < k" by simp_all
    have x1: "x + 1 = r + 1 + q * k" using x by simp
    have "(x + 1) div k = q" "(x + 1) mod k = r + 1"
      using assms r' unfolding x1 by simp_all
    with r show ?thesis by (simp add: q_def [symmetric])
  qed
qed

lemma leap_sum:
  fixes a b c y :: int
  assumes "q \<Longrightarrow> p" "r \<Longrightarrow> q"
  shows "365 * y + (a + (if p then 1 else 0)) - (b + (if q then 1 else 0)) + (c + (if r then 1 else 0))
     = 365 * (y - 1) + a - b + c + (if p \<and> (\<not> q \<or> r) then 366 else 365)"
  using assms by (cases p; cases q; cases r) simp_all

lemma days_before_year_Suc: "days_before_year (y + 1) = days_before_year y + year_days y"
proof -
  have step: "y div k = (y - 1) div k + (if y mod k = 0 then 1 else 0)" if "0 < k" for k
    using div_succ_int [OF that, of "y - 1"] by simp
  have e4: "y div 4 = (y - 1) div 4 + (if y mod 4 = 0 then 1 else 0)"
    and e100: "y div 100 = (y - 1) div 100 + (if y mod 100 = 0 then 1 else 0)"
    and e400: "y div 400 = (y - 1) div 400 + (if y mod 400 = 0 then 1 else 0)"
    by (rule step, simp)+
  have m100: "y mod 4 = 0" if "y mod 100 = 0"
    using dvd_trans [of 4 100 y] that by (simp add: dvd_eq_mod_eq_0)
  have m400: "y mod 100 = 0" if "y mod 400 = 0"
    using dvd_trans [of 100 400 y] that by (simp add: dvd_eq_mod_eq_0)
  have "days_before_year (y + 1) = 365 * y + y div 4 - y div 100 + y div 400"
    by (simp add: days_before_year_def)
  also have "\<dots> = 365 * y + ((y - 1) div 4 + (if y mod 4 = 0 then 1 else 0))
      - ((y - 1) div 100 + (if y mod 100 = 0 then 1 else 0))
      + ((y - 1) div 400 + (if y mod 400 = 0 then 1 else 0))"
    by (simp only: e4 e100 e400)
  also have "\<dots> = days_before_year y + year_days y"
    unfolding days_before_year_def year_days_def is_leap_def
    by (rule leap_sum) (fact m100 m400)+
  finally show ?thesis .
qed

lemma days_before_year_mono: "y \<le> z \<Longrightarrow> days_before_year y \<le> days_before_year z"
proof (induction z rule: int_ge_induct)
  case (step z)
  moreover have "0 \<le> year_days z" by (simp add: year_days_def)
  ultimately show ?case by (simp add: days_before_year_Suc)
qed simp

definition rfc3339_range :: "Time \<Rightarrow> bool" where
  "rfc3339_range t \<longleftrightarrow>
     days_before_year 0 * secs_per_day * nanos \<le> t \<and> t < days_before_year 10000 * secs_per_day * nanos"

lemma rfc3339_range_year:
  assumes "rfc3339_range t" "date_of_days (t div nanos div secs_per_day) = (y, m, d)"
  shows "0 \<le> y" "y \<le> 9999"
proof -
  let ?D = "t div nanos div secs_per_day"
  note D = date_of_days_correct(6,7) [OF assms(2)]
  have lo: "days_before_year 0 \<le> ?D" and hi: "?D < days_before_year 10000"
    using assms(1) unfolding rfc3339_range_def by linarith+
  show "0 \<le> y"
  proof (rule ccontr)
    assume "\<not> 0 \<le> y"
    then have "days_before_year (y + 1) \<le> days_before_year 0" by (intro days_before_year_mono) simp
    with D lo show False by (simp add: days_before_year_Suc)
  qed
  show "y \<le> 9999"
  proof (rule ccontr)
    assume "\<not> y \<le> 9999"
    then have "days_before_year 10000 \<le> days_before_year y" by (intro days_before_year_mono) simp
    with D hi show False by simp
  qed
qed

lemma append_int_2:
  assumes "0 \<le> n" "n < 100"
  shows "append_int 2 n = [digit_char (nat n div 10), digit_char (nat n mod 10)]"
proof (cases "n < 10")
  case True
  with assms show ?thesis by (simp add: append_int_def show_nat_digit digit_char_def Let_def)
next
  case False
  then have "\<not> nat n < 10" "nat n div 10 < 10" using assms by linarith+
  with assms show ?thesis
    by (simp add: append_int_def show_nat.simps [of "nat n"] show_nat_digit Let_def)
qed

lemma digits_val_pad: "digits_val (replicate k (CHR ''0'') @ ds) = digits_val ds"
  by (induction k) (simp_all add: digits_val_def digit_val_def)

lemma length_show_nat: "n < 10 ^ Suc k \<Longrightarrow> length (show_nat n) \<le> Suc k"
proof (induction k arbitrary: n)
  case 0
  then show ?case by (simp add: show_nat_digit)
next
  case (Suc k)
  then have "n div 10 < 10 ^ Suc k" by auto
  with Suc.IH show ?case by (subst show_nat.simps) auto
qed

lemma parse_year_append_int:
  assumes "0 \<le> y" "y \<le> 9999"
  shows "parse_year (append_int 4 y @ s) = Some (y, s)"
proof -
  have len: "length (show_nat (nat y)) \<le> 4"
    using length_show_nat [of "nat y" 3] assms by simp
  then have "length (append_int 4 y) = 4" using assms by (simp add: append_int_def Let_def)
  moreover have "list_all is_digit (append_int 4 y)"
    using assms show_nat_digits [of "nat y"]
    by (auto simp: append_int_def Let_def list_all_iff is_digit_def)
  moreover have "int (digits_val (append_int 4 y)) = y"
    using assms by (simp add: append_int_def Let_def digits_val_pad digits_val_show_nat)
  ultimately show ?thesis by (simp add: parse_year_def)
qed

lemma getnum_append_int:
  assumes "0 \<le> n" "n < 100"
  shows "getnum fixed (append_int 2 n @ s) = Some (n, s)"
proof -
  have "nat n div 10 < 10" "nat n mod 10 < 10" using assms by linarith+
  then show ?thesis using assms by (simp add: append_int_2 digit_char_props)
qed

lemma getnum_max_append_int:
  assumes "0 \<le> n" "n \<le> hi" "hi < 100"
  shows "getnum_max fixed hi (append_int 2 n @ s) = Some (n, s)"
  using assms by (simp add: getnum_max_def getnum_append_int)

lemma days_in_le: "1 \<le> m \<Longrightarrow> m \<le> 12 \<Longrightarrow> days_in m y \<le> 31"
  by (auto simp: days_in_def month_lengths_def nth_Cons')

lemma Parse_fields:
  assumes "0 \<le> y" "y \<le> 9999" "1 \<le> m" "m \<le> 12" "1 \<le> d" "d \<le> days_in m y"
    and "0 \<le> hh" "hh \<le> 23" "0 \<le> mm" "mm \<le> 59" "0 \<le> ss" "ss \<le> 59"
  shows "time_Parse_RFC3339 (append_int 4 y @ CHR ''-'' # append_int 2 m @ CHR ''-'' #
      append_int 2 d @ CHR ''T'' # append_int 2 hh @ CHR '':'' # append_int 2 mm @ CHR '':'' #
      append_int 2 ss @ ''Z'') =
    Some ((days_of_date y m d * secs_per_day + hh * 3600 + mm * 60 + ss) * nanos)"
  using assms days_in_le [of m y]
  by (simp add: time_Parse_RFC3339_def parse_year_append_int skip_char_def getnum_max_append_int
      getnum_append_int parse_fraction_def parse_zone_def)

lemma Parse_Format:
  assumes "rfc3339_range t"
  shows "time_Parse_RFC3339 (time_Format_RFC3339 t) = Some (t div nanos * nanos)"
proof -
  define s where "s = t div nanos"
  define r where "r = s mod secs_per_day"
  define hh mi ss where "hh = r div 3600" and "mi = r div 60 mod 60" and "ss = r mod 60"
  obtain y m d where ymd: "date_of_days (s div secs_per_day) = (y, m, d)"
    by (cases "date_of_days (s div secs_per_day)") auto
  have y: "0 \<le> y" "y \<le> 9999" by (rule rfc3339_range_year [OF assms ymd [unfolded s_def]])+
  have r: "0 \<le> r" "r < 86400" by (simp_all add: r_def)
  have hms: "0 \<le> hh" "hh \<le> 23" "0 \<le> mi" "mi \<le> 59" "0 \<le> ss" "ss \<le> 59"
    using r by (simp_all add: pos_imp_zdiv_nonneg_iff hh_def mi_def ss_def)
  have "r div 60 div 60 = hh" by (simp add: zdiv_zmult2_eq [symmetric] hh_def)
  moreover have "r = r div 60 * 60 + ss" by (simp add: ss_def)
  moreover have "r div 60 = r div 60 div 60 * 60 + mi" by (simp only: div_mult_mod_eq mi_def)
  ultimately have recompose: "r = hh * 3600 + mi * 60 + ss" by simp
  have s: "s = s div secs_per_day * secs_per_day + r" by (simp only: div_mult_mod_eq r_def)
  have "time_Format_RFC3339 t = append_int 4 y @ CHR ''-'' # append_int 2 m @ CHR ''-'' #
      append_int 2 d @ CHR ''T'' # append_int 2 hh @ CHR '':'' # append_int 2 mi @ CHR '':'' #
      append_int 2 ss @ ''Z''"
    unfolding time_Format_RFC3339_def Let_def s_def [symmetric] ymd case_prod_conv
      r_def [symmetric] hh_def [symmetric] mi_def [symmetric] ss_def [symmetric]
    by simp
  also have "time_Parse_RFC3339 \<dots> =
      Some ((days_of_date y m d * secs_per_day + hh * 3600 + mi * 60 + ss) * nanos)"
    by (rule Parse_fields) (use y hms date_of_days_correct [OF ymd] in simp_all)
  also have "days_of_date y m d * secs_per_day + hh * 3600 + mi * 60 + ss = s"
    using s recompose date_of_days_correct(1) [OF ymd] by linarith
  finally show ?thesis by (simp only: s_def)
qed

end
