(* ===== verification/Config.thy ===== *)
theory Config
  imports GoTime
begin

text \<open>
  \<^verbatim>\<open>src/internal/config/config.go\<close>: the configuration record, the default drain taints, the flags
  with their defaults and the validation that \<open>Parse\<close> ends with. What package \<open>flag\<close> read from
  the command line is an argument of \<open>Parse\<close>: for each flag the value given, if any. The lemmas
  say what an accepted configuration guarantees to the two controllers.
\<close>

record DrainTaint =
  dt_Key :: string
  dt_Effect :: string

record Config =
  DrainTaints :: "DrainTaint list"
  EnabledAnnotation :: string
  RequeueInterval :: Duration
  ReadinessTimeout :: Duration
  LeaderElect :: bool
  MetricsAddr :: string
  HealthAddr :: string
  RestartSurgeEnabled :: bool
  RestartSurgeGracePeriod :: Duration
  RestartSurgeTimeout :: Duration

definition time_Millisecond :: Duration where "time_Millisecond = 1000000"
definition time_Second :: Duration where "time_Second = 1000000000"
definition time_Minute :: Duration where "time_Minute = 60 * time_Second"

definition DefaultDrainTaints :: "DrainTaint list" where
  "DefaultDrainTaints =
     [\<lparr>dt_Key = ''karpenter.sh/disrupted'', dt_Effect = ''NoSchedule''\<rparr>,
      \<lparr>dt_Key = ''ToBeDeletedByClusterAutoscaler'', dt_Effect = ''NoSchedule''\<rparr>,
      \<lparr>dt_Key = ''node.kubernetes.io/unschedulable'', dt_Effect = ''NoSchedule''\<rparr>]"

text \<open>The values of the flags on the command line; \<open>None\<close> for a flag that is not given.\<close>

record flag_values =
  fl_enabled_annotation :: "string option"
  fl_requeue_interval :: "Duration option"
  fl_readiness_timeout :: "Duration option"
  fl_leader_elect :: "bool option"
  fl_metrics_addr :: "string option"
  fl_health_addr :: "string option"
  fl_restart_surge_enabled :: "bool option"
  fl_restart_surge_grace_period :: "Duration option"
  fl_restart_surge_timeout :: "Duration option"

definition flag_or :: "'a option \<Rightarrow> 'a \<Rightarrow> 'a" where
  "flag_or v dflt = (case v of None \<Rightarrow> dflt | Some x \<Rightarrow> x)"

definition Validate :: "Config \<Rightarrow> error option" where
  "Validate c =
     (if RequeueInterval c \<le>s 0
      then Some (Errorf ''--requeue-interval must be positive, got %s'' [ArgDur (RequeueInterval c)])
      else if ReadinessTimeout c \<le>s 0
      then Some (Errorf ''--readiness-timeout must be positive, got %s'' [ArgDur (ReadinessTimeout c)])
      else if ReadinessTimeout c \<le>s RequeueInterval c
      then Some (Errorf ''--readiness-timeout (%s) must be greater than --requeue-interval (%s)''
             [ArgDur (ReadinessTimeout c), ArgDur (RequeueInterval c)])
      else if length (DrainTaints c) = 0
      then Some (Errorf ''at least one drain taint must be configured'' [])
      else if EnabledAnnotation c = []
      then Some (Errorf ''--enabled-annotation must not be empty'' [])
      else if RestartSurgeEnabled c \<and> RestartSurgeGracePeriod c \<le>s 0
      then Some (Errorf ''--restart-surge-grace-period must be positive, got %s''
             [ArgDur (RestartSurgeGracePeriod c)])
      else if RestartSurgeEnabled c \<and> RestartSurgeTimeout c \<le>s RestartSurgeGracePeriod c
      then Some (Errorf ''--restart-surge-timeout (%s) must be greater than --restart-surge-grace-period (%s)''
             [ArgDur (RestartSurgeTimeout c), ArgDur (RestartSurgeGracePeriod c)])
      else None)"

definition Parse :: "flag_values \<Rightarrow> error + Config" where
  "Parse fl =
     (let cfg = \<lparr>DrainTaints = DefaultDrainTaints,
            EnabledAnnotation = flag_or (fl_enabled_annotation fl) ''k8s-drain-surge.io/enabled'',
            RequeueInterval = flag_or (fl_requeue_interval fl) (5 * time_Second),
            ReadinessTimeout = flag_or (fl_readiness_timeout fl) (10 * time_Minute),
            LeaderElect = flag_or (fl_leader_elect fl) True,
            MetricsAddr = flag_or (fl_metrics_addr fl) '':8080'',
            HealthAddr = flag_or (fl_health_addr fl) '':8081'',
            RestartSurgeEnabled = flag_or (fl_restart_surge_enabled fl) False,
            RestartSurgeGracePeriod = flag_or (fl_restart_surge_grace_period fl) (60 * time_Second),
            RestartSurgeTimeout = flag_or (fl_restart_surge_timeout fl) (10 * time_Minute)\<rparr>
      in case Validate cfg of Some e \<Rightarrow> Inl e | None \<Rightarrow> Inr cfg)"

definition no_flags :: flag_values where
  "no_flags = \<lparr>fl_enabled_annotation = None, fl_requeue_interval = None, fl_readiness_timeout = None,
     fl_leader_elect = None, fl_metrics_addr = None, fl_health_addr = None,
     fl_restart_surge_enabled = None, fl_restart_surge_grace_period = None,
     fl_restart_surge_timeout = None\<rparr>"

lemmas Config_defs = Parse_def Validate_def flag_or_def DefaultDrainTaints_def
  time_Millisecond_def time_Second_def time_Minute_def no_flags_def

lemma Validate_None_iff:
  "Validate c = None \<longleftrightarrow>
     0 < sint (RequeueInterval c) \<and> sint (RequeueInterval c) < sint (ReadinessTimeout c) \<and>
     DrainTaints c \<noteq> [] \<and> EnabledAnnotation c \<noteq> [] \<and>
     (RestartSurgeEnabled c \<longrightarrow>
        0 < sint (RestartSurgeGracePeriod c) \<and>
        sint (RestartSurgeGracePeriod c) < sint (RestartSurgeTimeout c))"
  by (auto simp: Validate_def)

lemma Parse_InrD:
  "Parse fl = Inr cfg \<Longrightarrow> Validate cfg = None \<and> DrainTaints cfg = DefaultDrainTaints"
  by (auto simp: Parse_def Let_def split: option.splits)

lemma Parse_no_flags: "\<exists>cfg. Parse no_flags = Inr cfg"
  by (simp add: Config_defs Let_def)

end
