(* ===== verification/K8sApi.thy ===== *)
theory K8sApi
  imports Config
begin

text \<open>
  The world the controllers work in, as data and as an interface.

  The API objects are records with the fields the controller reads or writes. The client of
  controller-runtime, the API server behind it, the event recorder, the clock, Go's order of
  iteration over a map and the label-selector library are not part of the repository: they are the
  fields of a record \<open>platform\<close> that every operation of the model takes as an argument, over an
  arbitrary environment state \<open>'s\<close>. Nothing is assumed of them here. Each client call is recorded
  in the trace of the world, with the answer it got, as a value of \<open>api_call\<close>.
\<close>

section \<open>Objects\<close>

type_synonym annotations = "string \<rightharpoonup> string"

record OwnerReference =
  ref_APIVersion :: string
  ref_Kind :: string
  ref_Name :: string

text \<open>\<open>Annotations\<close> is a Go map: \<open>None\<close> is the nil map, which reads as empty and panics on a write.\<close>

record ObjectMeta =
  Name :: string
  Namespace :: string
  Annotations :: "annotations option"
  OwnerReferences :: "OwnerReference list"
  CreationTimestamp :: Time
  DeletionTimestamp :: "Time option"
  Generation :: int

record LabelSelectorRequirement =
  lsr_Key :: string
  lsr_Operator :: string
  lsr_Values :: "string list"

record LabelSelector =
  MatchLabels :: "(string \<times> string) list"
  MatchExpressions :: "LabelSelectorRequirement list"

text \<open>The values of the label-selector library that the controller passes around.\<close>

record Requirement =
  req_key :: string
  req_operator :: string
  req_strValues :: "string list"

datatype Selector = Nothing_Selector | Requirements_Selector "Requirement list"

record Taint =
  taint_Key :: string
  taint_Effect :: string

record Node =
  node_Name :: string
  node_Taints :: "Taint list"

record Condition =
  cond_Type :: string
  cond_Status :: string
  cond_Reason :: string

record Pod =
  pod_ObjectMeta :: ObjectMeta
  pod_NodeName :: string
  pod_Phase :: string
  pod_Conditions :: "Condition list"

record ReplicaSet =
  rs_ObjectMeta :: ObjectMeta

record Rollout =
  ro_ObjectMeta :: ObjectMeta
  ro_Replicas :: "int32 option"
  ro_Selector :: "LabelSelector option"
  ro_RestartAt :: "Time option"
  ro_Phase :: string
  ro_Message :: string
  ro_RestartedAt :: "Time option"

record Deployment =
  dep_ObjectMeta :: ObjectMeta
  dep_Replicas :: "int32 option"
  dep_Selector :: "LabelSelector option"
  dep_StrategyType :: string
  dep_Conditions :: "Condition list"
  dep_ObservedGeneration :: int

record PodDisruptionBudget =
  pdb_Selector :: "LabelSelector option"

record HorizontalPodAutoscaler =
  hpa_ObjectMeta :: ObjectMeta
  hpa_ScaleTargetKind :: string
  hpa_ScaleTargetName :: string
  hpa_MinReplicas :: "int32 option"
  hpa_MaxReplicas :: int32

text \<open>The objects the controller patches or reports events on, as \<open>client.Object\<close>.\<close>

datatype client_Object = RolloutObject Rollout | DeploymentObject Deployment

fun object_meta :: "client_Object \<Rightarrow> ObjectMeta" where
  "object_meta (RolloutObject ro) = ro_ObjectMeta ro"
| "object_meta (DeploymentObject dep) = dep_ObjectMeta dep"

text \<open>
  The body of the merge patch the controller sends for a workload: \<open>spec.replicas\<close>, where \<open>None\<close>
  is JSON null, and for each annotation key of the patch a value or JSON null.
\<close>

record merge_patch =
  patch_replicas :: "int32 option"
  patch_annotations :: "string \<rightharpoonup> string option"

record event =
  ev_type :: string
  ev_reason :: string
  ev_format :: string
  ev_args :: "fmt_arg list"

section \<open>Calls and the platform\<close>

datatype api_call =
    GetNode string "api_error + Node"
  | GetReplicaSet string string "api_error + ReplicaSet"
  | GetRollout string string "api_error + Rollout"
  | GetDeployment string string "api_error + Deployment"
  | ListPodsOnNode string "api_error + Pod list"
  | ListMatchingPods string Selector "api_error + Pod list"
  | ListRolloutsByDrainNode string "api_error + Rollout list"
  | ListDeploymentsByDrainNode string "api_error + Deployment list"
  | ListNodes "api_error + Node list"
  | ListRollouts "api_error + Rollout list"
  | ListDeployments "api_error + Deployment list"
  | ListPDBs string "api_error + PodDisruptionBudget list"
  | ListHPAs string "api_error + HorizontalPodAutoscaler list"
  | PatchObject client_Object merge_patch "api_error + client_Object"
  | PatchHPA string string int32 "api_error + unit"
  | RecordEvent client_Object event
  | ReadClock Time

record 's platform =
  pf_GetNode :: "string \<Rightarrow> ('s, api_error + Node) state"
  pf_GetReplicaSet :: "string \<Rightarrow> string \<Rightarrow> ('s, api_error + ReplicaSet) state"
  pf_GetRollout :: "string \<Rightarrow> string \<Rightarrow> ('s, api_error + Rollout) state"
  pf_GetDeployment :: "string \<Rightarrow> string \<Rightarrow> ('s, api_error + Deployment) state"
  pf_ListPodsOnNode :: "string \<Rightarrow> ('s, api_error + Pod list) state"
  pf_ListMatchingPods :: "string \<Rightarrow> Selector \<Rightarrow> ('s, api_error + Pod list) state"
  pf_ListRolloutsByDrainNode :: "string \<Rightarrow> ('s, api_error + Rollout list) state"
  pf_ListDeploymentsByDrainNode :: "string \<Rightarrow> ('s, api_error + Deployment list) state"
  pf_ListNodes :: "('s, api_error + Node list) state"
  pf_ListRollouts :: "('s, api_error + Rollout list) state"
  pf_ListDeployments :: "('s, api_error + Deployment list) state"
  pf_ListPDBs :: "string \<Rightarrow> ('s, api_error + PodDisruptionBudget list) state"
  pf_ListHPAs :: "string \<Rightarrow> ('s, api_error + HorizontalPodAutoscaler list) state"
  pf_Patch :: "client_Object \<Rightarrow> merge_patch \<Rightarrow> ('s, api_error + client_Object) state"
  pf_PatchHPA :: "string \<Rightarrow> string \<Rightarrow> int32 \<Rightarrow> ('s, api_error + unit) state"
  pf_Event :: "client_Object \<Rightarrow> event \<Rightarrow> ('s, unit) state"
  pf_Now :: "('s, Time) state"
  pf_range_order :: "string list \<Rightarrow> string list"
  pf_LabelSelectorAsSelector :: "LabelSelector \<Rightarrow> error + Selector"
  pf_Requirements :: "Selector \<Rightarrow> Requirement list \<times> bool"
  pf_Requirement_String :: "Requirement \<Rightarrow> string"
  pf_Nothing :: Selector

type_synonym ('s, 'a) api_prog = "('s, api_call, 'a) prog"

definition api_result :: "api_error + 'a \<Rightarrow> error + 'a" where
  "api_result r = (case r of Inl e \<Rightarrow> Inl (Api e) | Inr x \<Rightarrow> Inr x)"

definition client_call ::
  "(api_error + 'a \<Rightarrow> api_call) \<Rightarrow> ('s, api_error + 'a) state \<Rightarrow> ('s, error + 'a) api_prog" where
  "client_call mk m = do { r \<leftarrow> call mk m; ret (api_result r) }"

definition Eventf ::
  "'s platform \<Rightarrow> client_Object \<Rightarrow> string \<Rightarrow> string \<Rightarrow> string \<Rightarrow> fmt_arg list \<Rightarrow> ('s, unit) api_prog" where
  "Eventf K obj ty reason fmt args =
     (let ev = \<lparr>ev_type = ty, ev_reason = reason, ev_format = fmt, ev_args = args\<rparr>
      in call (\<lambda>_. RecordEvent obj ev) (pf_Event K obj ev))"

definition time_Now :: "'s platform \<Rightarrow> ('s, Time) api_prog" where
  "time_Now K = call ReadClock (pf_Now K)"

text \<open>The \<open>ctrl.Result\<close> of a reconcile; only \<open>RequeueAfter\<close> is used.\<close>

record Result =
  RequeueAfter :: Duration

definition ctrl_Result :: Result where
  "ctrl_Result = \<lparr>RequeueAfter = 0\<rparr>"

definition EventTypeNormal :: string where "EventTypeNormal = ''Normal''"
definition EventTypeWarning :: string where "EventTypeWarning = ''Warning''"

text \<open>The UTF-8 bytes of an em dash, which some event texts contain.\<close>

definition em_dash :: string where
  "em_dash = [char_of (0xE2 :: nat), char_of (0x80 :: nat), char_of (0x94 :: nat)]"

section \<open>Rules of the trace logic for calls\<close>

lemma api_result_simps [simp]: "api_result (Inl e) = Inl (Api e)" "api_result (Inr x) = Inr x"
  by (simp_all add: api_result_def)

lemma api_result_Inr_iff [simp]: "api_result r = Inr x \<longleftrightarrow> r = Inr x"
  by (cases r) simp_all

lemma Inr_api_result_iff [simp]: "Inr x = api_result r \<longleftrightarrow> r = Inr x"
  by (cases r) auto

lemma api_result_Inl_iff: "api_result r = Inl e \<longleftrightarrow> (\<exists>a. r = Inl a \<and> e = Api a)"
  by (cases r) auto

lemma is_panic_api_result: "api_result r = Inl e \<Longrightarrow> \<not> is_panic e"
  by (cases r) auto

lemma emits_client_call [emits_intros]:
  "(\<And>r. Q (api_result r) [mk r]) \<Longrightarrow> emits (client_call mk m) Q"
  unfolding client_call_def by (intro emits_intros) simp

lemma emits_Eventf [emits_intros]:
  "(\<And>ev. ev = \<lparr>ev_type = ty, ev_reason = reason, ev_format = fmt, ev_args = args\<rparr> \<Longrightarrow>
      Q () [RecordEvent obj ev]) \<Longrightarrow> emits (Eventf K obj ty reason fmt args) Q"
  unfolding Eventf_def by (intro emits_intros) simp

lemma emits_time_Now [emits_intros]: "(\<And>t. Q t [ReadClock t]) \<Longrightarrow> emits (time_Now K) Q"
  unfolding time_Now_def by (intro emits_intros)

section \<open>Reading traces\<close>

text \<open>The calls that change the cluster, and those that change a workload or an autoscaler.\<close>

fun is_write :: "api_call \<Rightarrow> bool" where
  "is_write (PatchObject _ _ _) = True"
| "is_write (PatchHPA _ _ _ _) = True"
| "is_write _ = False"

fun is_event :: "api_call \<Rightarrow> bool" where
  "is_event (RecordEvent _ _) = True"
| "is_event _ = False"

definition writes :: "api_call list \<Rightarrow> api_call list" where
  "writes l = filter is_write l"

lemma writes_simps [simp]:
  "writes [] = []"
  "writes (l @ l') = writes l @ writes l'"
  "writes (c # l) = (if is_write c then c # writes l else writes l)"
  by (simp_all add: writes_def)

end
