(* ===== verification/DrainState.thy ===== *)
theory DrainState
  imports K8sApi
begin

text \<open>
  \<^verbatim>\<open>src/internal/controller/state.go\<close>: the state names, the annotation keys the controller owns,
  the three ways to clear them and the readers of the bookkeeping values. A state name is a string,
  as in the source, since an annotation may hold any text. The lemmas give the distinctness of the
  keys, the effect of each clearing operation on every key and the round trip of the bookkeeping
  values through their annotations.
\<close>

section \<open>Definitions\<close>

definition ControllerName :: string where "ControllerName = ''k8s-drain-surge''"

type_synonym DrainState = string

definition DrainStateNone :: DrainState where "DrainStateNone = ''''"
definition DrainStatePending :: DrainState where "DrainStatePending = ''pending''"
definition DrainStateScaledUp :: DrainState where "DrainStateScaledUp = ''scaled-up''"
definition DrainStateReady :: DrainState where "DrainStateReady = ''ready''"
definition DrainStateDraining :: DrainState where "DrainStateDraining = ''draining''"
definition DrainStateDone :: DrainState where "DrainStateDone = ''done''"

definition AnnotationEnabled :: string where
  "AnnotationEnabled = ''k8s-drain-surge.io/enabled''"
definition AnnotationDrainState :: string where
  "AnnotationDrainState = ''k8s-drain-surge.io/drain-state''"
definition AnnotationOriginalReplicas :: string where
  "AnnotationOriginalReplicas = ''k8s-drain-surge.io/original-replicas''"
definition AnnotationDrainNode :: string where
  "AnnotationDrainNode = ''k8s-drain-surge.io/drain-node''"
definition AnnotationDrainStart :: string where
  "AnnotationDrainStart = ''k8s-drain-surge.io/drain-start''"
definition AnnotationHPAName :: string where
  "AnnotationHPAName = ''k8s-drain-surge.io/hpa-name''"
definition AnnotationHPAOriginalMinReplicas :: string where
  "AnnotationHPAOriginalMinReplicas = ''k8s-drain-surge.io/hpa-original-min-replicas''"
definition AnnotationRestartSurgeState :: string where
  "AnnotationRestartSurgeState = ''k8s-drain-surge.io/restart-surge-state''"
definition AnnotationRestartSurgeStart :: string where
  "AnnotationRestartSurgeStart = ''k8s-drain-surge.io/restart-surge-start''"

definition reasonNewRSAvailable :: string where "reasonNewRSAvailable = ''NewReplicaSetAvailable''"

definition drainAnnotationKeys :: "string list" where
  "drainAnnotationKeys =
     [AnnotationDrainState, AnnotationOriginalReplicas, AnnotationDrainNode, AnnotationDrainStart,
      AnnotationHPAName, AnnotationHPAOriginalMinReplicas, AnnotationRestartSurgeState,
      AnnotationRestartSurgeStart]"

definition restartSurgeFullKeys :: "string list" where
  "restartSurgeFullKeys =
     [AnnotationRestartSurgeState, AnnotationRestartSurgeStart, AnnotationOriginalReplicas,
      AnnotationHPAName, AnnotationHPAOriginalMinReplicas]"

definition restartSurgeExclusiveKeys :: "string list" where
  "restartSurgeExclusiveKeys = [AnnotationRestartSurgeState, AnnotationRestartSurgeStart]"

text \<open>
  Go's map reads and writes on an annotation map: \<open>m[k]\<close> with and without the presence flag,
  \<open>m[k] = v\<close>, which panics on the nil map, and \<open>delete(m, k)\<close>, which does not.
\<close>

definition anno_lookup :: "annotations option \<Rightarrow> string \<Rightarrow> string option" where
  "anno_lookup a k = (case a of None \<Rightarrow> None | Some m \<Rightarrow> m k)"

definition anno_get :: "annotations option \<Rightarrow> string \<Rightarrow> string" where
  "anno_get a k = (case anno_lookup a k of None \<Rightarrow> '''' | Some v \<Rightarrow> v)"

definition anno_set :: "annotations option \<Rightarrow> string \<Rightarrow> string \<Rightarrow> error + annotations option" where
  "anno_set a k v =
     (case a of None \<Rightarrow> Inl (Panic ''assignment to entry in nil map'') | Some m \<Rightarrow> Inr (Some (m(k \<mapsto> v))))"

definition anno_make :: "annotations option \<Rightarrow> annotations" where
  "anno_make a = (case a of None \<Rightarrow> Map.empty | Some m \<Rightarrow> m)"

fun delete_keys :: "string list \<Rightarrow> annotations option \<Rightarrow> annotations option" where
  "delete_keys [] a = a"
| "delete_keys (k # ks) a = delete_keys ks (map_option (\<lambda>m. m(k := None)) a)"

definition clearDrainAnnotations :: "annotations option \<Rightarrow> annotations option" where
  "clearDrainAnnotations = delete_keys drainAnnotationKeys"

definition clearRestartSurgeAnnotations :: "annotations option \<Rightarrow> annotations option" where
  "clearRestartSurgeAnnotations = delete_keys restartSurgeFullKeys"

definition clearRestartSurgeExclusiveAnnotations :: "annotations option \<Rightarrow> annotations option" where
  "clearRestartSurgeExclusiveAnnotations = delete_keys restartSurgeExclusiveKeys"

definition parseRFC3339Annotation :: "annotations option \<Rightarrow> string \<Rightarrow> Time option" where
  "parseRFC3339Annotation a key =
     (case anno_lookup a key of
        None \<Rightarrow> None
      | Some s \<Rightarrow> if s = '''' then None else time_Parse_RFC3339 s)"

definition parseDrainStart :: "annotations option \<Rightarrow> Time option" where
  "parseDrainStart a = parseRFC3339Annotation a AnnotationDrainStart"

definition parseRestartSurgeStart :: "annotations option \<Rightarrow> Time option" where
  "parseRestartSurgeStart a = parseRFC3339Annotation a AnnotationRestartSurgeStart"

text \<open>\<open>strconv.Atoi\<close> gives a 64-bit integer; \<open>int32(n)\<close> keeps its low 32 bits.\<close>

definition getOriginalReplicas :: "annotations option \<Rightarrow> error + int32" where
  "getOriginalReplicas a =
     (case anno_lookup a AnnotationOriginalReplicas of
        None \<Rightarrow> Inl (Errorf ''annotation %s not found'' [ArgS AnnotationOriginalReplicas])
      | Some s \<Rightarrow>
          if s = '''' then Inl (Errorf ''annotation %s not found'' [ArgS AnnotationOriginalReplicas])
          else case strconv_Atoi s of
                 Inl e \<Rightarrow> Inl (Wrap ''invalid %s value %q: %w'' [ArgS AnnotationOriginalReplicas, ArgS s] e)
               | Inr n \<Rightarrow> Inr (word_of_int n))"

definition workloadKey :: "string \<Rightarrow> string \<Rightarrow> string" where
  "workloadKey namespace name = namespace @ ''/'' @ name"

section \<open>Distinctness of keys and states\<close>

lemmas key_defs = AnnotationEnabled_def AnnotationDrainState_def AnnotationOriginalReplicas_def
  AnnotationDrainNode_def AnnotationDrainStart_def AnnotationHPAName_def
  AnnotationHPAOriginalMinReplicas_def AnnotationRestartSurgeState_def AnnotationRestartSurgeStart_def

lemmas state_defs = DrainStateNone_def DrainStatePending_def DrainStateScaledUp_def
  DrainStateReady_def DrainStateDraining_def DrainStateDone_def

lemmas key_list_defs = drainAnnotationKeys_def restartSurgeFullKeys_def restartSurgeExclusiveKeys_def

lemma keys_distinct: "distinct (AnnotationEnabled # drainAnnotationKeys)"
  by (simp add: key_defs drainAnnotationKeys_def)

lemma keys_distinct_rev: "distinct (rev (AnnotationEnabled # drainAnnotationKeys))"
  using keys_distinct by (simp only: distinct_rev)

lemma states_distinct:
  "distinct [DrainStateNone, DrainStatePending, DrainStateScaledUp, DrainStateReady,
     DrainStateDraining, DrainStateDone]"
  by (simp add: state_defs)

lemma states_distinct_rev:
  "distinct [DrainStateDone, DrainStateDraining, DrainStateReady, DrainStateScaledUp,
     DrainStatePending, DrainStateNone]"
  by (simp add: state_defs)

lemmas key_neqs [key_simps, simp] =
  keys_distinct [unfolded drainAnnotationKeys_def, simplified]
  keys_distinct_rev [unfolded drainAnnotationKeys_def, simplified]

lemmas state_neqs [key_simps, simp] = states_distinct [simplified] states_distinct_rev [simplified]

declare DrainStateNone_def [simp]

lemma state_nonempty [simp]:
  "DrainStatePending \<noteq> []" "DrainStateScaledUp \<noteq> []" "DrainStateReady \<noteq> []"
  "DrainStateDraining \<noteq> []" "DrainStateDone \<noteq> []"
  "[] \<noteq> DrainStatePending" "[] \<noteq> DrainStateScaledUp" "[] \<noteq> DrainStateReady"
  "[] \<noteq> DrainStateDraining" "[] \<noteq> DrainStateDone"
  by (simp_all add: state_defs)

section \<open>Reading and clearing annotations\<close>

lemma anno_lookup_simps [simp]:
  "anno_lookup None k = None" "anno_lookup (Some m) k = m k"
  by (simp_all add: anno_lookup_def)

lemma anno_get_None [simp]: "anno_get None k = ''''"
  by (simp add: anno_get_def)

lemma anno_get_Some_upd [simp]:
  "anno_get (Some (m(k \<mapsto> v))) k' = (if k' = k then v else anno_get (Some m) k')"
  by (simp add: anno_get_def)

lemma anno_get_Some_del [simp]:
  "anno_get (Some (m(k := None))) k' = (if k' = k then '''' else anno_get (Some m) k')"
  by (simp add: anno_get_def)

lemma anno_get_Nil_iff: "anno_get a k = '''' \<longleftrightarrow> anno_lookup a k = None \<or> anno_lookup a k = Some ''''"
  by (auto simp: anno_get_def split: option.splits)

lemma anno_get_nonempty: "anno_get a k = v \<Longrightarrow> v \<noteq> '''' \<Longrightarrow> anno_lookup a k = Some v \<and> a \<noteq> None"
  by (auto simp: anno_get_def anno_lookup_def split: option.splits)

lemma anno_set_Some [simp]: "anno_set (Some m) k v = Inr (Some (m(k \<mapsto> v)))"
  by (simp add: anno_set_def)

lemma anno_make_Some [simp]: "anno_make (Some m) = m"
  by (simp add: anno_make_def)

lemma anno_lookup_make: "anno_make a k = anno_lookup a k"
  by (cases a) (simp_all add: anno_make_def)

lemma anno_lookup_delete_keys [simp]:
  "anno_lookup (delete_keys ks a) k = (if k \<in> set ks then None else anno_lookup a k)"
  by (induction ks a rule: delete_keys.induct) (auto simp: anno_lookup_def split: option.splits)

lemma delete_keys_None [simp]: "delete_keys ks None = None"
  by (induction ks) simp_all

lemma delete_keys_eq_None_iff [simp]: "delete_keys ks a = None \<longleftrightarrow> a = None"
  by (induction ks a rule: delete_keys.induct) simp_all

lemma lookup_clearDrain [simp]:
  "anno_lookup (clearDrainAnnotations a) k =
     (if k \<in> set drainAnnotationKeys then None else anno_lookup a k)"
  by (simp add: clearDrainAnnotations_def)

lemma lookup_clearRestartSurge [simp]:
  "anno_lookup (clearRestartSurgeAnnotations a) k =
     (if k \<in> set restartSurgeFullKeys then None else anno_lookup a k)"
  by (simp add: clearRestartSurgeAnnotations_def)

lemma lookup_clearRestartSurgeExclusive [simp]:
  "anno_lookup (clearRestartSurgeExclusiveAnnotations a) k =
     (if k \<in> set restartSurgeExclusiveKeys then None else anno_lookup a k)"
  by (simp add: clearRestartSurgeExclusiveAnnotations_def)

lemma key_mem [simp]:
  "AnnotationDrainState \<in> set drainAnnotationKeys" "AnnotationOriginalReplicas \<in> set drainAnnotationKeys"
  "AnnotationDrainNode \<in> set drainAnnotationKeys" "AnnotationDrainStart \<in> set drainAnnotationKeys"
  "AnnotationHPAName \<in> set drainAnnotationKeys" "AnnotationHPAOriginalMinReplicas \<in> set drainAnnotationKeys"
  "AnnotationRestartSurgeState \<in> set drainAnnotationKeys" "AnnotationRestartSurgeStart \<in> set drainAnnotationKeys"
  "AnnotationEnabled \<notin> set drainAnnotationKeys"
  by (simp_all add: drainAnnotationKeys_def)

lemma restart_key_mem [simp]:
  "AnnotationRestartSurgeState \<in> set restartSurgeFullKeys" "AnnotationRestartSurgeStart \<in> set restartSurgeFullKeys"
  "AnnotationOriginalReplicas \<in> set restartSurgeFullKeys" "AnnotationHPAName \<in> set restartSurgeFullKeys"
  "AnnotationHPAOriginalMinReplicas \<in> set restartSurgeFullKeys" "AnnotationDrainState \<notin> set restartSurgeFullKeys"
  "AnnotationDrainNode \<notin> set restartSurgeFullKeys" "AnnotationDrainStart \<notin> set restartSurgeFullKeys"
  "AnnotationRestartSurgeState \<in> set restartSurgeExclusiveKeys"
  "AnnotationRestartSurgeStart \<in> set restartSurgeExclusiveKeys"
  "AnnotationOriginalReplicas \<notin> set restartSurgeExclusiveKeys" "AnnotationHPAName \<notin> set restartSurgeExclusiveKeys"
  "AnnotationHPAOriginalMinReplicas \<notin> set restartSurgeExclusiveKeys"
  "AnnotationDrainState \<notin> set restartSurgeExclusiveKeys" "AnnotationDrainNode \<notin> set restartSurgeExclusiveKeys"
  "AnnotationDrainStart \<notin> set restartSurgeExclusiveKeys"
  by (simp_all add: restartSurgeFullKeys_def restartSurgeExclusiveKeys_def)

lemma owned_keys_subset: "set restartSurgeExclusiveKeys \<subseteq> set restartSurgeFullKeys"
    "set restartSurgeFullKeys \<subseteq> set drainAnnotationKeys"
  by (simp_all add: key_list_defs)

lemma anno_get_make [simp]: "anno_get (Some (anno_make a)) k = anno_get a k"
  by (cases a) (simp_all add: anno_make_def anno_get_def)

lemma anno_get_Some_D: "anno_get a k \<noteq> '''' \<Longrightarrow> \<exists>m. a = Some m"
  by (cases a) simp_all

lemma anno_get_delete_keys [simp]:
  "anno_get (delete_keys ks a) k = (if k \<in> set ks then '''' else anno_get a k)"
  by (simp add: anno_get_def)

section \<open>Bookkeeping values\<close>

lemma getOriginalReplicas_Some: "getOriginalReplicas a = Inr n \<Longrightarrow> \<exists>m. a = Some m"
  by (cases a) (simp_all add: getOriginalReplicas_def)

lemma getOriginalReplicas_no_panic: "getOriginalReplicas a = Inl e \<Longrightarrow> \<not> is_panic e"
  by (auto simp: getOriginalReplicas_def split: option.splits if_splits sum.splits)

lemma getOriginalReplicas_cong:
  "anno_lookup a AnnotationOriginalReplicas = anno_lookup b AnnotationOriginalReplicas \<Longrightarrow>
   getOriginalReplicas a = getOriginalReplicas b"
  by (simp add: getOriginalReplicas_def)

lemma getOriginalReplicas_Itoa:
  "anno_lookup a AnnotationOriginalReplicas = Some (strconv_Itoa (sint n)) \<Longrightarrow>
   getOriginalReplicas a = Inr n"
  by (simp add: getOriginalReplicas_def)

lemma getOriginalReplicas_upd_other [simp]:
  "k \<noteq> AnnotationOriginalReplicas \<Longrightarrow>
   getOriginalReplicas (Some (m(k \<mapsto> v))) = getOriginalReplicas (Some m)"
  by (rule getOriginalReplicas_cong) simp

lemma getOriginalReplicas_upd [simp]:
  "getOriginalReplicas (Some (m(AnnotationOriginalReplicas \<mapsto> strconv_Itoa (sint n)))) = Inr n"
  by (rule getOriginalReplicas_Itoa) simp

lemma getOriginalReplicas_upd_1 [simp]:
  "getOriginalReplicas (Some (m(AnnotationOriginalReplicas \<mapsto> strconv_Itoa 1))) = Inr 1"
  using getOriginalReplicas_upd [of m 1] by simp

lemma getOriginalReplicas_make [simp]: "getOriginalReplicas (Some (anno_make a)) = getOriginalReplicas a"
  by (rule getOriginalReplicas_cong) (simp add: anno_lookup_make)

lemma getOriginalReplicas_delete_keys:
  "AnnotationOriginalReplicas \<in> set ks \<Longrightarrow> \<exists>e. getOriginalReplicas (delete_keys ks a) = Inl e"
  by (simp add: getOriginalReplicas_def)

lemma getOriginalReplicas_delete_other [simp]:
  "AnnotationOriginalReplicas \<notin> set ks \<Longrightarrow> getOriginalReplicas (delete_keys ks a) = getOriginalReplicas a"
  by (rule getOriginalReplicas_cong) simp

lemma parseRFC3339Annotation_Format:
  assumes "anno_lookup a key = Some (time_Format_RFC3339 t)" "rfc3339_range t"
  shows "parseRFC3339Annotation a key = Some (t div nanos * nanos)"
proof -
  have "time_Format_RFC3339 t \<noteq> []" by (simp add: time_Format_RFC3339_def Let_def split: prod.split)
  with assms show ?thesis by (simp add: parseRFC3339Annotation_def Parse_Format)
qed

end
