(* ===== verification/Workload.thy ===== *)
theory Workload
  imports DrainState
begin

text \<open>
  \<^verbatim>\<open>src/internal/controller/workload.go\<close>: the interface \<open>DrainableWorkload\<close> with its two
  implementations, and the merge patch both send. The Go interface value is the datatype
  \<open>DrainableWorkload\<close>, a method call on it a dispatch on the constructor. The contract the state
  machines rely on is the locale \<open>drainable_workload\<close>, interpreted for Rollouts, for Deployments
  and for the interface values.

  \<open>GetObjectMeta\<close> returns a pointer, through which the handlers replace or mutate the annotations;
  the model writes them back with \<open>SetAnnotations\<close>. A successful client patch overwrites the local
  object with the server's answer, so \<open>Patch\<close> returns the object.
\<close>

section \<open>The merge patch\<close>

definition annoPatch :: "annotations option \<Rightarrow> string \<rightharpoonup> string option" where
  "annoPatch a =
     fold (\<lambda>key p. if anno_lookup a key = None then p(key \<mapsto> None) else p) drainAnnotationKeys
       (\<lambda>k. map_option Some (anno_lookup a k))"

definition patchReplicasAndAnnotations ::
  "'s platform \<Rightarrow> client_Object \<Rightarrow> int32 option \<Rightarrow> annotations option \<Rightarrow> ('s, error + client_Object) api_prog" where
  "patchReplicasAndAnnotations K obj replicas a =
     (let patch = \<lparr>patch_replicas = replicas, patch_annotations = annoPatch a\<rparr>
      in client_call (PatchObject obj patch) (pf_Patch K obj patch))"

definition selectorFromLabelSelector :: "'s platform \<Rightarrow> LabelSelector option \<Rightarrow> Selector" where
  "selectorFromLabelSelector K ls =
     (case ls of
        None \<Rightarrow> pf_Nothing K
      | Some l \<Rightarrow> (case pf_LabelSelectorAsSelector K l of Inl _ \<Rightarrow> pf_Nothing K | Inr sel \<Rightarrow> sel))"

section \<open>Argo Rollouts\<close>

definition RolloutPhaseHealthy :: string where "RolloutPhaseHealthy = ''Healthy''"
definition RolloutPhaseProgressing :: string where "RolloutPhaseProgressing = ''Progressing''"
definition argoRestartingMessage :: string where "argoRestartingMessage = ''rollout is restarting''"

definition ro_GetReplicas :: "Rollout \<Rightarrow> int32" where
  "ro_GetReplicas r = (case ro_Replicas r of None \<Rightarrow> 1 | Some n \<Rightarrow> n)"

definition ro_SetReplicas :: "int32 \<Rightarrow> Rollout \<Rightarrow> Rollout" where
  "ro_SetReplicas n r = r\<lparr>ro_Replicas := Some n\<rparr>"

definition ro_IsStable :: "Rollout \<Rightarrow> bool" where
  "ro_IsStable r \<longleftrightarrow> ro_Phase r = RolloutPhaseHealthy"

definition IsStableForRestart :: "Rollout \<Rightarrow> bool" where
  "IsStableForRestart r \<longleftrightarrow>
     (if ro_Phase r = RolloutPhaseHealthy then True
      else ro_Phase r = RolloutPhaseProgressing \<and> ro_Message r = argoRestartingMessage)"

definition ro_CanSurge :: "Rollout \<Rightarrow> bool" where
  "ro_CanSurge r \<longleftrightarrow> True"

definition ro_GetPodSelector :: "'s platform \<Rightarrow> Rollout \<Rightarrow> Selector" where
  "ro_GetPodSelector K r = selectorFromLabelSelector K (ro_Selector r)"

definition ro_SetAnnotations :: "annotations option \<Rightarrow> Rollout \<Rightarrow> Rollout" where
  "ro_SetAnnotations a r = r\<lparr>ro_ObjectMeta := (ro_ObjectMeta r)\<lparr>Annotations := a\<rparr>\<rparr>"

definition ro_GetObjectKind :: "Rollout \<Rightarrow> string" where
  "ro_GetObjectKind r = ''Rollout''"

definition ro_Patch :: "'s platform \<Rightarrow> Rollout \<Rightarrow> ('s, error + client_Object) api_prog" where
  "ro_Patch K r =
     patchReplicasAndAnnotations K (RolloutObject r) (ro_Replicas r) (Annotations (ro_ObjectMeta r))"

section \<open>Deployments\<close>

definition RecreateDeploymentStrategyType :: string where "RecreateDeploymentStrategyType = ''Recreate''"
definition DeploymentProgressing :: string where "DeploymentProgressing = ''Progressing''"

definition dep_GetReplicas :: "Deployment \<Rightarrow> int32" where
  "dep_GetReplicas d = (case dep_Replicas d of None \<Rightarrow> 1 | Some n \<Rightarrow> n)"

definition dep_SetReplicas :: "int32 \<Rightarrow> Deployment \<Rightarrow> Deployment" where
  "dep_SetReplicas n d = d\<lparr>dep_Replicas := Some n\<rparr>"

fun has_new_rs_condition :: "Condition list \<Rightarrow> bool" where
  "has_new_rs_condition [] = False"
| "has_new_rs_condition (c # cs) =
     (if cond_Type c = DeploymentProgressing \<and> cond_Reason c = reasonNewRSAvailable then True
      else has_new_rs_condition cs)"

definition dep_IsStable :: "Deployment \<Rightarrow> bool" where
  "dep_IsStable d \<longleftrightarrow>
     (if has_new_rs_condition (dep_Conditions d) then True
      else dep_ObservedGeneration d = Generation (dep_ObjectMeta d))"

definition dep_CanSurge :: "Deployment \<Rightarrow> bool" where
  "dep_CanSurge d \<longleftrightarrow> dep_StrategyType d \<noteq> RecreateDeploymentStrategyType"

definition dep_GetPodSelector :: "'s platform \<Rightarrow> Deployment \<Rightarrow> Selector" where
  "dep_GetPodSelector K d = selectorFromLabelSelector K (dep_Selector d)"

definition dep_SetAnnotations :: "annotations option \<Rightarrow> Deployment \<Rightarrow> Deployment" where
  "dep_SetAnnotations a d = d\<lparr>dep_ObjectMeta := (dep_ObjectMeta d)\<lparr>Annotations := a\<rparr>\<rparr>"

definition dep_GetObjectKind :: "Deployment \<Rightarrow> string" where
  "dep_GetObjectKind d = ''Deployment''"

definition dep_Patch :: "'s platform \<Rightarrow> Deployment \<Rightarrow> ('s, error + client_Object) api_prog" where
  "dep_Patch K d =
     patchReplicasAndAnnotations K (DeploymentObject d) (dep_Replicas d) (Annotations (dep_ObjectMeta d))"

section \<open>The interface value\<close>

datatype DrainableWorkload = RolloutWorkload Rollout | DeploymentWorkload Deployment

fun GetReplicas :: "DrainableWorkload \<Rightarrow> int32" where
  "GetReplicas (RolloutWorkload r) = ro_GetReplicas r"
| "GetReplicas (DeploymentWorkload d) = dep_GetReplicas d"

fun SetReplicas :: "int32 \<Rightarrow> DrainableWorkload \<Rightarrow> DrainableWorkload" where
  "SetReplicas n (RolloutWorkload r) = RolloutWorkload (ro_SetReplicas n r)"
| "SetReplicas n (DeploymentWorkload d) = DeploymentWorkload (dep_SetReplicas n d)"

fun IsStable :: "DrainableWorkload \<Rightarrow> bool" where
  "IsStable (RolloutWorkload r) = ro_IsStable r"
| "IsStable (DeploymentWorkload d) = dep_IsStable d"

fun CanSurge :: "DrainableWorkload \<Rightarrow> bool" where
  "CanSurge (RolloutWorkload r) = ro_CanSurge r"
| "CanSurge (DeploymentWorkload d) = dep_CanSurge d"

fun GetPodSelector :: "'s platform \<Rightarrow> DrainableWorkload \<Rightarrow> Selector" where
  "GetPodSelector K (RolloutWorkload r) = ro_GetPodSelector K r"
| "GetPodSelector K (DeploymentWorkload d) = dep_GetPodSelector K d"

fun GetObjectMeta :: "DrainableWorkload \<Rightarrow> ObjectMeta" where
  "GetObjectMeta (RolloutWorkload r) = ro_ObjectMeta r"
| "GetObjectMeta (DeploymentWorkload d) = dep_ObjectMeta d"

fun SetAnnotations :: "annotations option \<Rightarrow> DrainableWorkload \<Rightarrow> DrainableWorkload" where
  "SetAnnotations a (RolloutWorkload r) = RolloutWorkload (ro_SetAnnotations a r)"
| "SetAnnotations a (DeploymentWorkload d) = DeploymentWorkload (dep_SetAnnotations a d)"

fun GetObjectKind :: "DrainableWorkload \<Rightarrow> string" where
  "GetObjectKind (RolloutWorkload r) = ro_GetObjectKind r"
| "GetObjectKind (DeploymentWorkload d) = dep_GetObjectKind d"

fun Patch :: "'s platform \<Rightarrow> DrainableWorkload \<Rightarrow> ('s, error + client_Object) api_prog" where
  "Patch K (RolloutWorkload r) = ro_Patch K r"
| "Patch K (DeploymentWorkload d) = dep_Patch K d"

fun Object :: "DrainableWorkload \<Rightarrow> client_Object" where
  "Object (RolloutWorkload r) = RolloutObject r"
| "Object (DeploymentWorkload d) = DeploymentObject d"

abbreviation wl_annotations :: "DrainableWorkload \<Rightarrow> annotations option" where
  "wl_annotations wl \<equiv> Annotations (GetObjectMeta wl)"

text \<open>The \<open>spec.replicas\<close> pointer of a workload, which \<open>Patch\<close> sends as it is.\<close>

fun spec_replicas :: "DrainableWorkload \<Rightarrow> int32 option" where
  "spec_replicas (RolloutWorkload r) = ro_Replicas r"
| "spec_replicas (DeploymentWorkload d) = dep_Replicas d"

text \<open>The patch document \<open>Patch\<close> sends.\<close>

definition patch_of :: "DrainableWorkload \<Rightarrow> merge_patch" where
  "patch_of wl = \<lparr>patch_replicas = spec_replicas wl, patch_annotations = annoPatch (wl_annotations wl)\<rparr>"

section \<open>The patch document\<close>

lemma fold_null_keys:
  "fold (\<lambda>key p. if anno_lookup a key = None then p(key \<mapsto> None) else p) ks p k =
     (if k \<in> set ks \<and> anno_lookup a k = None then Some None else p k)"
  by (induction ks arbitrary: p) auto

lemma annoPatch_apply:
  "annoPatch a k =
     (case anno_lookup a k of
        Some v \<Rightarrow> Some (Some v)
      | None \<Rightarrow> if k \<in> set drainAnnotationKeys then Some None else None)"
  by (auto simp: annoPatch_def fold_null_keys split: option.splits)

lemma Patch_eq: "Patch K wl = client_call (PatchObject (Object wl) (patch_of wl)) (pf_Patch K (Object wl) (patch_of wl))"
  by (cases wl) (simp_all add: ro_Patch_def dep_Patch_def patchReplicasAndAnnotations_def patch_of_def Let_def)

lemma emits_Patch [emits_intros]:
  "(\<And>r. Q (api_result r) [PatchObject (Object wl) (patch_of wl) r]) \<Longrightarrow> emits (Patch K wl) Q"
  unfolding Patch_eq by (intro emits_intros)

section \<open>The contract of the interface\<close>

locale drainable_workload =
  fixes replicas :: "'w \<Rightarrow> int32"
    and set_replicas :: "int32 \<Rightarrow> 'w \<Rightarrow> 'w"
    and stable :: "'w \<Rightarrow> bool"
    and can_surge :: "'w \<Rightarrow> bool"
    and pod_selector :: "'w \<Rightarrow> Selector"
    and meta :: "'w \<Rightarrow> ObjectMeta"
    and set_annotations :: "annotations option \<Rightarrow> 'w \<Rightarrow> 'w"
    and kind :: "'w \<Rightarrow> string"
    and spec :: "'w \<Rightarrow> int32 option"
  assumes replicas_set: "replicas (set_replicas n w) = n"
    and spec_set: "spec (set_replicas n w) = Some n"
    and replicas_spec: "spec w = Some n \<Longrightarrow> replicas w = n"
    and meta_set: "meta (set_replicas n w) = meta w"
    and meta_annotate: "meta (set_annotations a w) = (meta w)\<lparr>Annotations := a\<rparr>"
    and replicas_annotate: "replicas (set_annotations a w) = replicas w"
    and spec_annotate: "spec (set_annotations a w) = spec w"
    and can_surge_set: "can_surge (set_replicas n w) = can_surge w"
    and can_surge_annotate: "can_surge (set_annotations a w) = can_surge w"
    and selector_set: "pod_selector (set_replicas n w) = pod_selector w"
    and selector_annotate: "pod_selector (set_annotations a w) = pod_selector w"
    and stable_set: "stable (set_replicas n w) = stable w"
    and stable_annotate: "stable (set_annotations a w) = stable w"
    and kind_set: "kind (set_replicas n w) = kind w"
    and kind_annotate: "kind (set_annotations a w) = kind w"
    and set_set: "set_replicas n (set_replicas k w) = set_replicas n w"
    and annotate_same: "set_annotations (Annotations (meta w)) w = w"
    and annotate_annotate: "set_annotations a (set_annotations b w) = set_annotations a w"
    and annotate_set: "set_annotations a (set_replicas n w) = set_replicas n (set_annotations a w)"
begin

text \<open>
  The round trip behind every surge: record the replica count, change the count and the other
  annotations, then restore the recorded count and the annotations as they were. The object is as
  before, up to the explicit replica count.
\<close>

lemma surge_restore_round_trip:
  assumes "anno_lookup (Annotations (meta w')) AnnotationOriginalReplicas
      = Some (strconv_Itoa (sint (replicas w)))"
    and "w' = set_annotations a (set_replicas n w)"
  shows "\<exists>k. getOriginalReplicas (Annotations (meta w')) = Inr k \<and>
    set_annotations (Annotations (meta w)) (set_replicas k w') = set_replicas (replicas w) w"
proof -
  have "getOriginalReplicas (Annotations (meta w')) = Inr (replicas w)"
    using assms(1) by (rule getOriginalReplicas_Itoa)
  moreover have "set_annotations (Annotations (meta w)) (set_replicas (replicas w) w') =
      set_replicas (replicas w) w"
    by (simp add: assms(2) annotate_set annotate_annotate set_set annotate_same)
  ultimately show ?thesis by blast
qed

text \<open>\<open>CanSurge\<close>, stability, selector and kind survive any sequence of the two mutations.\<close>

lemma observers_set_annotate:
  "stable (set_annotations a (set_replicas n w)) = stable w"
  "can_surge (set_annotations a (set_replicas n w)) = can_surge w"
  "pod_selector (set_annotations a (set_replicas n w)) = pod_selector w"
  "kind (set_annotations a (set_replicas n w)) = kind w"
  by (simp_all add: stable_set stable_annotate can_surge_set can_surge_annotate
      selector_set selector_annotate kind_set kind_annotate)

end

lemmas ro_defs = ro_GetReplicas_def ro_SetReplicas_def ro_IsStable_def ro_CanSurge_def
  ro_GetPodSelector_def ro_SetAnnotations_def ro_GetObjectKind_def

lemmas dep_defs = dep_GetReplicas_def dep_SetReplicas_def dep_IsStable_def dep_CanSurge_def
  dep_GetPodSelector_def dep_SetAnnotations_def dep_GetObjectKind_def

interpretation rollout: drainable_workload ro_GetReplicas ro_SetReplicas ro_IsStable ro_CanSurge
  "ro_GetPodSelector K" ro_ObjectMeta ro_SetAnnotations ro_GetObjectKind ro_Replicas for K
  by unfold_locales (simp_all add: ro_defs)

interpretation deployment: drainable_workload dep_GetReplicas dep_SetReplicas dep_IsStable
  dep_CanSurge "dep_GetPodSelector K" dep_ObjectMeta dep_SetAnnotations dep_GetObjectKind
  dep_Replicas for K
  by unfold_locales (simp_all add: dep_defs)

interpretation wl: drainable_workload GetReplicas SetReplicas IsStable CanSurge "GetPodSelector K"
  GetObjectMeta SetAnnotations GetObjectKind spec_replicas for K
proof unfold_locales
  fix n k a b and w :: DrainableWorkload
  show "GetReplicas (SetReplicas n w) = n"
    by (cases w) (simp_all add: rollout.replicas_set deployment.replicas_set)
  show "spec_replicas (SetReplicas n w) = Some n"
    by (cases w) (simp_all add: rollout.spec_set deployment.spec_set)
  show "spec_replicas w = Some n \<Longrightarrow> GetReplicas w = n"
    by (cases w) (simp_all add: rollout.replicas_spec deployment.replicas_spec)
  show "GetObjectMeta (SetReplicas n w) = GetObjectMeta w"
    by (cases w) (simp_all add: rollout.meta_set deployment.meta_set)
  show "GetObjectMeta (SetAnnotations a w) = (GetObjectMeta w)\<lparr>Annotations := a\<rparr>"
    by (cases w) (simp_all add: rollout.meta_annotate deployment.meta_annotate)
  show "GetReplicas (SetAnnotations a w) = GetReplicas w"
    by (cases w) (simp_all add: rollout.replicas_annotate deployment.replicas_annotate)
  show "spec_replicas (SetAnnotations a w) = spec_replicas w"
    by (cases w) (simp_all add: rollout.spec_annotate deployment.spec_annotate)
  show "CanSurge (SetReplicas n w) = CanSurge w"
    by (cases w) (simp_all add: rollout.can_surge_set deployment.can_surge_set)
  show "CanSurge (SetAnnotations a w) = CanSurge w"
    by (cases w) (simp_all add: rollout.can_surge_annotate deployment.can_surge_annotate)
  show "GetPodSelector K (SetReplicas n w) = GetPodSelector K w"
    by (cases w) (simp_all add: rollout.selector_set deployment.selector_set)
  show "GetPodSelector K (SetAnnotations a w) = GetPodSelector K w"
    by (cases w) (simp_all add: rollout.selector_annotate deployment.selector_annotate)
  show "IsStable (SetReplicas n w) = IsStable w"
    by (cases w) (simp_all add: rollout.stable_set deployment.stable_set)
  show "IsStable (SetAnnotations a w) = IsStable w"
    by (cases w) (simp_all add: rollout.stable_annotate deployment.stable_annotate)
  show "GetObjectKind (SetReplicas n w) = GetObjectKind w"
    by (cases w) (simp_all add: rollout.kind_set deployment.kind_set)
  show "GetObjectKind (SetAnnotations a w) = GetObjectKind w"
    by (cases w) (simp_all add: rollout.kind_annotate deployment.kind_annotate)
  show "SetReplicas n (SetReplicas k w) = SetReplicas n w"
    by (cases w) (simp_all add: rollout.set_set deployment.set_set)
  show "SetAnnotations (Annotations (GetObjectMeta w)) w = w"
    by (cases w) (simp_all add: rollout.annotate_same deployment.annotate_same)
  show "SetAnnotations a (SetAnnotations b w) = SetAnnotations a w"
    by (cases w) (simp_all add: rollout.annotate_annotate deployment.annotate_annotate)
  show "SetAnnotations a (SetReplicas n w) = SetReplicas n (SetAnnotations a w)"
    by (cases w) (simp_all add: rollout.annotate_set deployment.annotate_set)
qed

lemmas wl_laws [simp, wl_simps] =
  wl.replicas_set wl.spec_set wl.meta_set wl.meta_annotate wl.replicas_annotate wl.spec_annotate
  wl.can_surge_set wl.can_surge_annotate wl.selector_set wl.selector_annotate wl.stable_set
  wl.stable_annotate wl.kind_set wl.kind_annotate wl.set_set wl.annotate_same wl.annotate_annotate

lemma patch_of_sel [simp]:
  "patch_replicas (patch_of wl) = spec_replicas wl"
  "patch_annotations (patch_of wl) = annoPatch (wl_annotations wl)"
  by (simp_all add: patch_of_def)

lemma object_meta_Object [simp]: "object_meta (Object wl) = GetObjectMeta wl"
  by (cases wl) simp_all

end
