(* ===== verification/Scaler.thy ===== *)
theory Scaler
  imports RestartDetect
begin

text \<open>
  \<^verbatim>\<open>src/internal/controller/scaler.go\<close>: resolving a pod to its workload, finding the disruption
  budget and the autoscaler of a workload, patching the autoscaler and looking at the pods of a
  workload. The lemmas state each function's result in terms of the list it read, and its trace.
\<close>

section \<open>Owners\<close>

fun find_rs_name :: "OwnerReference list \<Rightarrow> string" where
  "find_rs_name [] = ''''"
| "find_rs_name (r # rs) =
     (if ref_Kind r = ''ReplicaSet'' \<and> ref_APIVersion r = ''apps/v1'' then ref_Name r else find_rs_name rs)"

fun resolve_owner ::
  "'s platform \<Rightarrow> string \<Rightarrow> OwnerReference list \<Rightarrow> ('s, error + DrainableWorkload option) api_prog" where
  "resolve_owner K ns [] = ret (Inr None)"
| "resolve_owner K ns (r # rs) =
     (if ref_Kind r = ''Rollout'' \<and> ref_APIVersion r = ''argoproj.io/v1alpha1''
      then checked (wrap_error ''get Rollout %s/%s: %w'' [ArgS ns, ArgS (ref_Name r)])
             (client_call (GetRollout ns (ref_Name r)) (pf_GetRollout K ns (ref_Name r)))
             (\<lambda>rollout. ret (Inr (Some (RolloutWorkload rollout))))
      else if ref_Kind r = ''Deployment'' \<and> ref_APIVersion r = ''apps/v1''
      then checked (wrap_error ''get Deployment %s/%s: %w'' [ArgS ns, ArgS (ref_Name r)])
             (client_call (GetDeployment ns (ref_Name r)) (pf_GetDeployment K ns (ref_Name r)))
             (\<lambda>dep. ret (Inr (Some (DeploymentWorkload dep))))
      else resolve_owner K ns rs)"

definition ResolveWorkloadFromPod ::
  "'s platform \<Rightarrow> Pod \<Rightarrow> ('s, error + DrainableWorkload option) api_prog" where
  "ResolveWorkloadFromPod K pod =
     (let ns = Namespace (pod_ObjectMeta pod); rsName = find_rs_name (OwnerReferences (pod_ObjectMeta pod))
      in if rsName = '''' then ret (Inr None)
         else checked (wrap_error ''get ReplicaSet %s/%s: %w'' [ArgS ns, ArgS rsName])
                (client_call (GetReplicaSet ns rsName) (pf_GetReplicaSet K ns rsName))
                (\<lambda>rs. resolve_owner K ns (OwnerReferences (rs_ObjectMeta rs))))"

section \<open>Disruption budgets\<close>

fun requirement_found :: "'s platform \<Rightarrow> Requirement \<Rightarrow> Requirement list \<Rightarrow> bool" where
  "requirement_found K pr [] = False"
| "requirement_found K pr (wr # wrs) =
     (if pf_Requirement_String K pr = pf_Requirement_String K wr then True else requirement_found K pr wrs)"

fun all_requirements_found :: "'s platform \<Rightarrow> Requirement list \<Rightarrow> Requirement list \<Rightarrow> bool" where
  "all_requirements_found K [] wrs = True"
| "all_requirements_found K (pr # prs) wrs =
     (if \<not> requirement_found K pr wrs then False else all_requirements_found K prs wrs)"

definition requirementsMatch :: "'s platform \<Rightarrow> Requirement list \<Rightarrow> Requirement list \<Rightarrow> bool" where
  "requirementsMatch K pdbReqs workloadReqs =
     (if length pdbReqs = 0 then False else all_requirements_found K pdbReqs workloadReqs)"

fun find_pdb :: "'s platform \<Rightarrow> Requirement list \<Rightarrow> PodDisruptionBudget list \<Rightarrow> bool" where
  "find_pdb K workloadReqs [] = False"
| "find_pdb K workloadReqs (pdb # pdbs) =
     (case pdb_Selector pdb of
        None \<Rightarrow> find_pdb K workloadReqs pdbs
      | Some ls \<Rightarrow>
          (case pf_LabelSelectorAsSelector K ls of
             Inl _ \<Rightarrow> find_pdb K workloadReqs pdbs
           | Inr pdbSelector \<Rightarrow>
               if requirementsMatch K (fst (pf_Requirements K pdbSelector)) workloadReqs then True
               else find_pdb K workloadReqs pdbs))"

definition FindMatchingPDB :: "'s platform \<Rightarrow> string \<Rightarrow> Selector \<Rightarrow> ('s, error + bool) api_prog" where
  "FindMatchingPDB K ns podSelector =
     checked (wrap_error ''list PDBs: %w'' [])
       (client_call (ListPDBs ns) (pf_ListPDBs K ns))
       (\<lambda>pdbs. ret (Inr (find_pdb K (fst (pf_Requirements K podSelector)) pdbs)))"

section \<open>Autoscalers\<close>

fun find_hpa :: "string \<Rightarrow> string \<Rightarrow> HorizontalPodAutoscaler list \<Rightarrow> HorizontalPodAutoscaler option" where
  "find_hpa name kind [] = None"
| "find_hpa name kind (hpa # hpas) =
     (if hpa_ScaleTargetName hpa = name \<and> hpa_ScaleTargetKind hpa = kind then Some hpa
      else find_hpa name kind hpas)"

definition FindMatchingHPA ::
  "'s platform \<Rightarrow> string \<Rightarrow> string \<Rightarrow> string \<Rightarrow> ('s, error + HorizontalPodAutoscaler option) api_prog" where
  "FindMatchingHPA K ns workloadName workloadKind =
     checked (wrap_error ''list HPAs: %w'' [])
       (client_call (ListHPAs ns) (pf_ListHPAs K ns))
       (\<lambda>hpas. ret (Inr (find_hpa workloadName workloadKind hpas)))"

definition PatchHPAMinReplicas ::
  "'s platform \<Rightarrow> string \<Rightarrow> string \<Rightarrow> int32 \<Rightarrow> ('s, error + unit) api_prog" where
  "PatchHPAMinReplicas K ns hpaName minReplicas =
     client_call (PatchHPA ns hpaName minReplicas) (pf_PatchHPA K ns hpaName minReplicas)"

definition HPAMinReplicasOrDefault :: "HorizontalPodAutoscaler \<Rightarrow> int32" where
  "HPAMinReplicasOrDefault hpa = (case hpa_MinReplicas hpa of Some n \<Rightarrow> n | None \<Rightarrow> 1)"

definition IsHPAAtMinReplicas :: "HorizontalPodAutoscaler \<Rightarrow> int32 \<Rightarrow> bool" where
  "IsHPAAtMinReplicas hpa target = (case hpa_MinReplicas hpa of None \<Rightarrow> False | Some n \<Rightarrow> target \<le>s n)"

section \<open>Pods\<close>

definition PodSucceeded :: string where "PodSucceeded = ''Succeeded''"
definition PodFailed :: string where "PodFailed = ''Failed''"
definition PodReadyType :: string where "PodReadyType = ''Ready''"
definition ConditionTrue :: string where "ConditionTrue = ''True''"

fun has_ready_condition :: "Condition list \<Rightarrow> bool" where
  "has_ready_condition [] = False"
| "has_ready_condition (c # cs) =
     (if cond_Type c = PodReadyType \<and> cond_Status c = ConditionTrue then True else has_ready_condition cs)"

definition isPodReady :: "Pod \<Rightarrow> bool" where
  "isPodReady pod = has_ready_condition (pod_Conditions pod)"

definition isPodTerminating :: "Pod \<Rightarrow> bool" where
  "isPodTerminating pod \<longleftrightarrow> DeletionTimestamp (pod_ObjectMeta pod) \<noteq> None"

definition listMatchingPods :: "'s platform \<Rightarrow> string \<Rightarrow> Selector \<Rightarrow> ('s, error + Pod list) api_prog" where
  "listMatchingPods K ns podSelector =
     checked (wrap_error ''list pods: %w'' [])
       (client_call (ListMatchingPods ns podSelector) (pf_ListMatchingPods K ns podSelector))
       (\<lambda>pods. ret (Inr pods))"

fun ready_pod_elsewhere :: "string \<Rightarrow> Pod list \<Rightarrow> bool" where
  "ready_pod_elsewhere drainNode [] = False"
| "ready_pod_elsewhere drainNode (pod # pods) =
     (if pod_NodeName pod \<noteq> drainNode \<and> isPodReady pod \<and> \<not> isPodTerminating pod then True
      else ready_pod_elsewhere drainNode pods)"

definition FindReadyPodOnOtherNode ::
  "'s platform \<Rightarrow> string \<Rightarrow> Selector \<Rightarrow> string \<Rightarrow> ('s, error + bool) api_prog" where
  "FindReadyPodOnOtherNode K ns podSelector drainNode =
     checked id (listMatchingPods K ns podSelector) (\<lambda>pods. ret (Inr (ready_pod_elsewhere drainNode pods)))"

fun live_pod_on_node :: "string \<Rightarrow> Pod list \<Rightarrow> bool" where
  "live_pod_on_node nodeName [] = False"
| "live_pod_on_node nodeName (pod # pods) =
     (if pod_NodeName pod = nodeName \<and> \<not> isPodTerminating pod \<and>
         pod_Phase pod \<noteq> PodSucceeded \<and> pod_Phase pod \<noteq> PodFailed then True
      else live_pod_on_node nodeName pods)"

definition FindPodOnNode ::
  "'s platform \<Rightarrow> string \<Rightarrow> Selector \<Rightarrow> string \<Rightarrow> ('s, error + bool) api_prog" where
  "FindPodOnNode K ns podSelector nodeName =
     checked id (listMatchingPods K ns podSelector) (\<lambda>pods. ret (Inr (live_pod_on_node nodeName pods)))"

section \<open>What the searches find\<close>

lemma requirement_found_iff:
  "requirement_found K pr wrs \<longleftrightarrow> pf_Requirement_String K pr \<in> pf_Requirement_String K ` set wrs"
  by (induction wrs) auto

lemma all_requirements_found_iff:
  "all_requirements_found K prs wrs \<longleftrightarrow>
     pf_Requirement_String K ` set prs \<subseteq> pf_Requirement_String K ` set wrs"
  by (induction prs) (auto simp: requirement_found_iff)

lemma find_pdb_iff:
  "find_pdb K reqs pdbs \<longleftrightarrow>
     (\<exists>pdb \<in> set pdbs. \<exists>ls sel. pdb_Selector pdb = Some ls \<and> pf_LabelSelectorAsSelector K ls = Inr sel \<and>
        requirementsMatch K (fst (pf_Requirements K sel)) reqs)"
  by (induction pdbs) (auto split: option.splits sum.splits)

lemma find_hpa_Some:
  "find_hpa name kind hpas = Some hpa \<Longrightarrow>
     hpa \<in> set hpas \<and> hpa_ScaleTargetName hpa = name \<and> hpa_ScaleTargetKind hpa = kind"
  by (induction hpas) (auto split: if_splits)

lemma find_hpa_None:
  "find_hpa name kind hpas = None \<longleftrightarrow>
     (\<forall>hpa \<in> set hpas. \<not> (hpa_ScaleTargetName hpa = name \<and> hpa_ScaleTargetKind hpa = kind))"
  by (induction hpas) auto

lemma has_ready_condition_iff:
  "has_ready_condition cs \<longleftrightarrow> (\<exists>c \<in> set cs. cond_Type c = PodReadyType \<and> cond_Status c = ConditionTrue)"
  by (induction cs) auto

lemma ready_pod_elsewhere_iff:
  "ready_pod_elsewhere n pods \<longleftrightarrow>
     (\<exists>pod \<in> set pods. pod_NodeName pod \<noteq> n \<and> isPodReady pod \<and> \<not> isPodTerminating pod)"
  by (induction pods) auto

lemma live_pod_on_node_iff:
  "live_pod_on_node n pods \<longleftrightarrow>
     (\<exists>pod \<in> set pods. pod_NodeName pod = n \<and> \<not> isPodTerminating pod \<and>
        pod_Phase pod \<noteq> PodSucceeded \<and> pod_Phase pod \<noteq> PodFailed)"
  by (induction pods) auto

lemma IsHPAAtMinReplicas_Some: "IsHPAAtMinReplicas hpa n \<Longrightarrow> \<exists>m. hpa_MinReplicas hpa = Some m"
  by (auto simp: IsHPAAtMinReplicas_def split: option.splits)

section \<open>Traces\<close>

lemma emits_FindMatchingPDB [emits_intros]:
  assumes "\<And>e a. \<not> is_panic e \<Longrightarrow> Q (Inl e) [ListPDBs ns (Inl a)]"
    and "\<And>pdbs. Q (Inr (find_pdb K (fst (pf_Requirements K sel)) pdbs)) [ListPDBs ns (Inr pdbs)]"
  shows "emits (FindMatchingPDB K ns sel) Q"
  unfolding FindMatchingPDB_def
  by (intro emits_intros case_sumI) (auto simp: api_result_Inl_iff intro: assms)

lemma emits_FindMatchingHPA [emits_intros]:
  assumes "\<And>e a. \<not> is_panic e \<Longrightarrow> Q (Inl e) [ListHPAs ns (Inl a)]"
    and "\<And>hpas. Q (Inr (find_hpa name kind hpas)) [ListHPAs ns (Inr hpas)]"
  shows "emits (FindMatchingHPA K ns name kind) Q"
  unfolding FindMatchingHPA_def
  by (intro emits_intros case_sumI) (auto simp: api_result_Inl_iff intro: assms)

lemma emits_PatchHPAMinReplicas [emits_intros]:
  "(\<And>r. Q (api_result r) [PatchHPA ns name n r]) \<Longrightarrow> emits (PatchHPAMinReplicas K ns name n) Q"
  unfolding PatchHPAMinReplicas_def by (intro emits_intros)

lemma emits_listMatchingPods [emits_intros]:
  assumes "\<And>e a. \<not> is_panic e \<Longrightarrow> Q (Inl e) [ListMatchingPods ns sel (Inl a)]"
    and "\<And>pods. Q (Inr pods) [ListMatchingPods ns sel (Inr pods)]"
  shows "emits (listMatchingPods K ns sel) Q"
  unfolding listMatchingPods_def
  by (intro emits_intros case_sumI) (auto simp: api_result_Inl_iff intro: assms)

lemma emits_FindReadyPodOnOtherNode [emits_intros]:
  assumes "\<And>e a. \<not> is_panic e \<Longrightarrow> Q (Inl e) [ListMatchingPods ns sel (Inl a)]"
    and "\<And>pods. Q (Inr (ready_pod_elsewhere n pods)) [ListMatchingPods ns sel (Inr pods)]"
  shows "emits (FindReadyPodOnOtherNode K ns sel n) Q"
  unfolding FindReadyPodOnOtherNode_def by (intro emits_intros) (auto intro!: emits_intros assms)

lemma emits_FindPodOnNode [emits_intros]:
  assumes "\<And>e a. \<not> is_panic e \<Longrightarrow> Q (Inl e) [ListMatchingPods ns sel (Inl a)]"
    and "\<And>pods. Q (Inr (live_pod_on_node n pods)) [ListMatchingPods ns sel (Inr pods)]"
  shows "emits (FindPodOnNode K ns sel n) Q"
  unfolding FindPodOnNode_def by (intro emits_intros) (auto intro!: emits_intros assms)

end
