(* ===== verification/SurgeSpec.thy ===== *)
theory SurgeSpec
  imports Scaler
begin

text \<open>
  The abstract surge machine both controllers implement. A workload is seen through a
  \<open>surge_view\<close>: the phase its state annotation names, its replica count and the bookkeeping values
  its annotations hold. \<open>surge_step\<close> says how one persisted write may change that view; it is the
  specification the handlers of the two controllers are shown to refine. The facts of the machine
  proved here (progress, a fixed original count, the invariant \<open>surge_inv\<close>) carry over to whole
  histories of a workload in the theory \<open>History\<close>.
\<close>

section \<open>Phases\<close>

datatype phase = Idle | Pending | ScaledUp | Ready | Draining | Done | Unknown

definition phase_of :: "DrainState \<Rightarrow> phase" where
  "phase_of s =
     (if s = DrainStateNone then Idle
      else if s = DrainStatePending then Pending
      else if s = DrainStateScaledUp then ScaledUp
      else if s = DrainStateReady then Ready
      else if s = DrainStateDraining then Draining
      else if s = DrainStateDone then Done
      else Unknown)"

fun phase_rank :: "phase \<Rightarrow> nat" where
  "phase_rank Idle = 0"
| "phase_rank Pending = 1"
| "phase_rank ScaledUp = 2"
| "phase_rank Ready = 3"
| "phase_rank Draining = 4"
| "phase_rank Done = 5"
| "phase_rank Unknown = 6"

instantiation phase :: linorder
begin

definition less_eq_phase :: "phase \<Rightarrow> phase \<Rightarrow> bool" where
  "less_eq_phase p q \<longleftrightarrow> phase_rank p \<le> phase_rank q"

definition less_phase :: "phase \<Rightarrow> phase \<Rightarrow> bool" where
  "less_phase p q \<longleftrightarrow> phase_rank p < phase_rank q"

instance
proof
  fix p q r :: phase
  show "p < q \<longleftrightarrow> p \<le> q \<and> \<not> q \<le> p" by (auto simp: less_eq_phase_def less_phase_def)
  show "p \<le> p" by (simp add: less_eq_phase_def)
  show "p \<le> q \<Longrightarrow> q \<le> r \<Longrightarrow> p \<le> r" by (simp add: less_eq_phase_def)
  show "p \<le> q \<Longrightarrow> q \<le> p \<Longrightarrow> p = q" by (cases p; cases q) (simp_all add: less_eq_phase_def)
  show "p \<le> q \<or> q \<le> p" by (auto simp: less_eq_phase_def)
qed

end

lemma phase_of_simps [simp]:
  "phase_of [] = Idle" "phase_of DrainStatePending = Pending" "phase_of DrainStateScaledUp = ScaledUp"
  "phase_of DrainStateReady = Ready" "phase_of DrainStateDraining = Draining" "phase_of DrainStateDone = Done"
  by (simp_all add: phase_of_def)

lemma phase_of_eq_iff [simp]:
  "phase_of s = Idle \<longleftrightarrow> s = []" "phase_of s = Pending \<longleftrightarrow> s = DrainStatePending"
  "phase_of s = ScaledUp \<longleftrightarrow> s = DrainStateScaledUp" "phase_of s = Ready \<longleftrightarrow> s = DrainStateReady"
  "phase_of s = Draining \<longleftrightarrow> s = DrainStateDraining" "phase_of s = Done \<longleftrightarrow> s = DrainStateDone"
  by (auto simp: phase_of_def)

section \<open>Views and steps\<close>

record surge_view =
  sv_phase :: phase
  sv_replicas :: int32
  sv_original :: "int32 option"
  sv_hpa :: string

definition view :: "string \<Rightarrow> DrainableWorkload \<Rightarrow> surge_view" where
  "view key wl =
     \<lparr>sv_phase = phase_of (anno_get (wl_annotations wl) key),
      sv_replicas = GetReplicas wl,
      sv_original = (case getOriginalReplicas (wl_annotations wl) of Inl _ \<Rightarrow> None | Inr n \<Rightarrow> Some n),
      sv_hpa = anno_get (wl_annotations wl) AnnotationHPAName\<rparr>"

inductive surge_step :: "bool \<Rightarrow> surge_view \<Rightarrow> surge_view \<Rightarrow> bool" for may_yield where
  start: "sv_phase v = Idle \<Longrightarrow> sv_replicas v = 1 \<Longrightarrow>
    surge_step may_yield v (v\<lparr>sv_phase := ScaledUp, sv_replicas := 2, sv_original := Some 1\<rparr>)"
| start_hpa: "sv_phase v = Idle \<Longrightarrow> sv_replicas v = 1 \<Longrightarrow>
    surge_step may_yield v (v\<lparr>sv_phase := ScaledUp, sv_original := Some 1, sv_hpa := h\<rparr>)"
| reapply: "sv_phase v = Pending \<or> sv_phase v = ScaledUp \<Longrightarrow> sv_original v = Some k \<Longrightarrow>
    sint (sv_replicas v) \<le> sint k \<Longrightarrow> p = sv_phase v \<or> p = ScaledUp \<Longrightarrow>
    surge_step may_yield v (v\<lparr>sv_phase := p, sv_replicas := k + 1\<rparr>)"
| confirm: "sv_phase v = Pending \<Longrightarrow> sv_original v = Some k \<Longrightarrow> sint k < sint (sv_replicas v) \<Longrightarrow>
    surge_step may_yield v (v\<lparr>sv_phase := ScaledUp\<rparr>)"
| ready: "sv_phase v = ScaledUp \<Longrightarrow>
    sv_hpa v \<noteq> '''' \<or> (\<exists>k. sv_original v = Some k \<and> sint k < sint (sv_replicas v)) \<Longrightarrow>
    surge_step may_yield v (v\<lparr>sv_phase := Ready\<rparr>)"
| scale_down: "sv_phase v = Ready \<Longrightarrow> sv_original v = Some k \<Longrightarrow>
    surge_step may_yield v
      (v\<lparr>sv_phase := Draining, sv_replicas := (if sv_hpa v = '''' then k else sv_replicas v)\<rparr>)"
| finish: "sv_phase v = Draining \<Longrightarrow> sv_original v = Some k \<Longrightarrow>
    surge_step may_yield v
      (v\<lparr>sv_phase := Done, sv_replicas := (if sv_hpa v = '''' then k else sv_replicas v)\<rparr>)"
| cleanup: "sv_phase v = Done \<Longrightarrow>
    surge_step may_yield v (v\<lparr>sv_phase := Idle, sv_original := None, sv_hpa := ''''\<rparr>)"
| abort: "sv_phase v \<noteq> Idle \<Longrightarrow>
    surge_step may_yield v
      (v\<lparr>sv_phase := Idle, sv_replicas := (case sv_original v of Some k \<Rightarrow> k | None \<Rightarrow> sv_replicas v),
         sv_original := None, sv_hpa := ''''\<rparr>)"
| yield: "may_yield \<Longrightarrow> sv_phase v \<noteq> Idle \<Longrightarrow> sv_phase v \<noteq> Done \<Longrightarrow>
    surge_step may_yield v
      (v\<lparr>sv_phase := Idle, sv_replicas := (case sv_original v of
           Some k \<Rightarrow> if sv_hpa v = '''' then k else sv_replicas v | None \<Rightarrow> sv_replicas v)\<rparr>)"

inductive_cases surge_stepE: "surge_step y v v'"

section \<open>Facts of the abstract machine\<close>

text \<open>A write either ends the operation or moves it forward in the order of the phases.\<close>

lemma surge_step_progress:
  "surge_step y v v' \<Longrightarrow> sv_phase v' = Idle \<or> sv_phase v \<le> sv_phase v'"
  by (erule surge_step.cases) (auto simp: less_eq_phase_def)

text \<open>The original count is fixed while an operation is under way.\<close>

lemma surge_step_original:
  "surge_step y v v' \<Longrightarrow> sv_phase v \<noteq> Idle \<Longrightarrow> sv_phase v' \<noteq> Idle \<Longrightarrow> sv_original v' = sv_original v"
  by (erule surge_step.cases) auto

text \<open>No step enters \<open>Pending\<close> or an unknown phase.\<close>

lemma surge_step_no_pending:
  "surge_step y v v' \<Longrightarrow> sv_phase v' = Pending \<Longrightarrow> sv_phase v = Pending"
  by (erule surge_step.cases) auto

lemma surge_step_no_unknown: "surge_step y v v' \<Longrightarrow> sv_phase v' \<noteq> Unknown"
  by (erule surge_step.cases) auto

text \<open>
  The invariant of a workload's history: an operation under way is in one of the phases
  \<open>ScaledUp\<close> to \<open>Done\<close> and has recorded that the workload had one replica.
\<close>

definition surge_inv :: "surge_view \<Rightarrow> bool" where
  "surge_inv v \<longleftrightarrow>
     sv_phase v = Idle \<or> (sv_phase v \<in> {ScaledUp, Ready, Draining, Done} \<and> sv_original v = Some 1)"

lemma surge_inv_step: "surge_step y v v' \<Longrightarrow> surge_inv v \<Longrightarrow> surge_inv v'"
  by (erule surge_step.cases) (auto simp: surge_inv_def)

text \<open>
  A weaker invariant survives even the loss of the record: the phase is a known one, and the recorded
  count is one or gone together with the autoscaler's name.
\<close>

definition surge_record :: "surge_view \<Rightarrow> bool" where
  "surge_record v \<longleftrightarrow> sv_phase v \<in> {Idle, ScaledUp, Ready, Draining, Done} \<and>
     (sv_original v = Some 1 \<or> sv_original v = None \<and> sv_hpa v = '''')"

lemma surge_record_step: "surge_step y v v' \<Longrightarrow> surge_record v \<Longrightarrow> surge_record v'"
  by (erule surge_step.cases) (auto simp: surge_record_def)

lemma surge_record_replicas:
  "surge_step y v v' \<Longrightarrow> surge_record v \<Longrightarrow> sv_replicas v' \<in> {sv_replicas v, 1, 2}"
  by (erule surge_step.cases) (auto simp: surge_record_def split: option.splits)

text \<open>Without the record, the only step an operation under way can take is to end, at the count it has.\<close>

lemma surge_record_lost:
  "surge_step y v v' \<Longrightarrow> surge_record v \<Longrightarrow> sv_phase v \<noteq> Idle \<Longrightarrow> sv_original v = None \<Longrightarrow>
     sv_phase v' = Idle \<and> sv_replicas v' = sv_replicas v"
  by (erule surge_step.cases) (auto simp: surge_record_def)

section \<open>Writes in a trace\<close>

text \<open>
  \<open>patches_ok P l\<close>: every workload patch in the trace \<open>l\<close> is the patch of some in-memory workload
  that satisfies \<open>P\<close>, sent for that very object.
\<close>

definition patch_ok :: "(DrainableWorkload \<Rightarrow> bool) \<Rightarrow> api_call \<Rightarrow> bool" where
  "patch_ok P c =
     (case c of PatchObject obj p _ \<Rightarrow> (\<exists>wl. obj = Object wl \<and> p = patch_of wl \<and> P wl) | _ \<Rightarrow> True)"

definition patches_ok :: "(DrainableWorkload \<Rightarrow> bool) \<Rightarrow> api_call list \<Rightarrow> bool" where
  "patches_ok P l = list_all (patch_ok P) l"

lemma Object_inject [simp]: "Object wl = Object wl' \<longleftrightarrow> wl = wl'"
  by (cases wl; cases wl') simp_all

lemma patch_ok_PatchObject [simp]: "patch_ok P (PatchObject (Object wl) (patch_of wl) r) \<longleftrightarrow> P wl"
  by (auto simp: patch_ok_def)

lemma patch_ok_other [simp]:
  "patch_ok P (PatchHPA ns n k r)" "patch_ok P (RecordEvent obj ev)" "patch_ok P (ReadClock t)"
  "patch_ok P (ListMatchingPods ns sel pods)" "patch_ok P (ListPDBs ns pdbs)" "patch_ok P (ListHPAs ns hpas)"
  by (simp_all add: patch_ok_def)

lemma patches_ok_simps [simp]:
  "patches_ok P []"
  "patches_ok P (c # l) \<longleftrightarrow> patch_ok P c \<and> patches_ok P l"
  "patches_ok P (l @ l') \<longleftrightarrow> patches_ok P l \<and> patches_ok P l'"
  by (simp_all add: patches_ok_def)

lemma patch_ok_mono: "patch_ok P c \<Longrightarrow> (\<And>wl. P wl \<Longrightarrow> Q wl) \<Longrightarrow> patch_ok Q c"
  by (auto simp: patch_ok_def split: api_call.splits)

lemma patches_ok_mono: "patches_ok P l \<Longrightarrow> (\<And>wl. P wl \<Longrightarrow> Q wl) \<Longrightarrow> patches_ok Q l"
  by (induction l) (auto intro: patch_ok_mono)

lemma patches_ok_in: "patches_ok P l \<Longrightarrow> PatchObject obj p r \<in> set l \<Longrightarrow> \<exists>wl. obj = Object wl \<and> p = patch_of wl \<and> P wl"
  by (fastforce simp: patches_ok_def list_all_iff patch_ok_def)

lemma writes_Nil_patches: "writes l = [] \<Longrightarrow> patches_ok P l"
  by (induction l) (auto simp: patch_ok_def split: if_splits api_call.splits)

text \<open>The workloads a trace has read from the cluster.\<close>

fun read_by :: "api_call \<Rightarrow> DrainableWorkload set" where
  "read_by (GetRollout _ _ (Inr ro)) = {RolloutWorkload ro}"
| "read_by (GetDeployment _ _ (Inr dep)) = {DeploymentWorkload dep}"
| "read_by (ListRolloutsByDrainNode _ (Inr ros)) = RolloutWorkload ` set ros"
| "read_by (ListDeploymentsByDrainNode _ (Inr deps)) = DeploymentWorkload ` set deps"
| "read_by (ListRollouts (Inr ros)) = RolloutWorkload ` set ros"
| "read_by (ListDeployments (Inr deps)) = DeploymentWorkload ` set deps"
| "read_by _ = {}"

definition read_in :: "api_call list \<Rightarrow> DrainableWorkload set" where
  "read_in l = (\<Union>c \<in> set l. read_by c)"

lemma read_in_simps [simp]:
  "read_in [] = {}" "read_in (c # l) = read_by c \<union> read_in l" "read_in (l @ l') = read_in l \<union> read_in l'"
  by (auto simp: read_in_def)

end
