(* ===== verification/SurgeWrites.thy ===== *)
theory SurgeWrites
  imports SurgeSpec
begin

text \<open>
  The writes both controllers make, as functions on the workload, and the contract
  \<open>surge_writer\<close> a controller's choice of annotation keys has to meet for them to be steps of the
  abstract machine: the key its state is under, and the keys its cleanup deletes. The two
  controllers interpret the locale with their own keys.
\<close>

section \<open>What a write leaves alone\<close>

text \<open>
  A write keeps the name and the kind, and of the annotations it changes only keys of \<open>sets\<close>, the
  keys the controller ever sets, unless it clears: then exactly the keys of \<open>owned\<close> are gone.
\<close>

definition keeps :: "string list \<Rightarrow> annotations option \<Rightarrow> annotations option \<Rightarrow> bool" where
  "keeps sets a a' \<longleftrightarrow> (\<forall>k. k \<notin> set sets \<longrightarrow> anno_lookup a' k = anno_lookup a k)"

definition cleared :: "string list \<Rightarrow> annotations option \<Rightarrow> annotations option \<Rightarrow> bool" where
  "cleared owned a a' \<longleftrightarrow> (\<forall>k. anno_lookup a' k = (if k \<in> set owned then None else anno_lookup a k))"

definition same_identity :: "string list \<Rightarrow> string list \<Rightarrow> DrainableWorkload \<Rightarrow> DrainableWorkload \<Rightarrow> bool" where
  "same_identity sets owned wl wl' \<longleftrightarrow>
     Name (GetObjectMeta wl') = Name (GetObjectMeta wl) \<and>
     Namespace (GetObjectMeta wl') = Namespace (GetObjectMeta wl) \<and>
     GetObjectKind wl' = GetObjectKind wl \<and>
     (keeps sets (wl_annotations wl) (wl_annotations wl') \<or> cleared owned (wl_annotations wl) (wl_annotations wl'))"

lemma keeps_refl [simp]: "keeps sets a a"
  by (simp add: keeps_def)

lemma cleared_delete_keys [simp]: "cleared owned a (delete_keys owned a)"
  by (simp add: cleared_def)

lemma same_identity_intro:
  assumes "\<And>k. k \<notin> set sets \<Longrightarrow> anno_lookup a k = anno_lookup (wl_annotations wl) k"
  shows "same_identity sets owned wl (SetAnnotations a wl)" "same_identity sets owned wl (SetReplicas n (SetAnnotations a wl))"
    "same_identity sets owned wl (SetAnnotations a (SetReplicas n wl))"
  using assms by (simp_all add: same_identity_def keeps_def)

lemma same_identity_SetReplicas [simp, intro]: "same_identity sets owned wl (SetReplicas n wl)"
  by (simp add: same_identity_def)

text \<open>The annotations neither controller owns are always kept.\<close>

lemma same_identity_foreign:
  "same_identity sets owned wl wl' \<Longrightarrow> k \<notin> set sets \<Longrightarrow> k \<notin> set owned \<Longrightarrow>
     anno_lookup (wl_annotations wl') k = anno_lookup (wl_annotations wl) k"
  by (auto simp: same_identity_def keeps_def cleared_def)

section \<open>The writes\<close>

text \<open>Move to state \<open>s\<close>.\<close>

definition to_state :: "string \<Rightarrow> DrainState \<Rightarrow> DrainableWorkload \<Rightarrow> DrainableWorkload" where
  "to_state key s wl = SetAnnotations (Some ((anno_make (wl_annotations wl))(key \<mapsto> s))) wl"

text \<open>Restore the recorded replica count, where one is recorded.\<close>

definition restored :: "DrainableWorkload \<Rightarrow> DrainableWorkload" where
  "restored wl = (case getOriginalReplicas (wl_annotations wl) of
     Inr original \<Rightarrow> SetReplicas original wl | Inl _ \<Rightarrow> wl)"

text \<open>Restore and clear: the write of an abort.\<close>

definition aborted ::
  "(annotations option \<Rightarrow> annotations option) \<Rightarrow> DrainableWorkload \<Rightarrow> DrainableWorkload" where
  "aborted clear wl = SetAnnotations (clear (wl_annotations wl)) (restored wl)"

lemma restored_meta [simp]: "GetObjectMeta (restored wl) = GetObjectMeta wl"
  by (simp add: restored_def split: sum.splits)

lemma view_sel [simp]:
  "sv_phase (view key wl) = phase_of (anno_get (wl_annotations wl) key)"
  "sv_replicas (view key wl) = GetReplicas wl"
  "sv_hpa (view key wl) = anno_get (wl_annotations wl) AnnotationHPAName"
  "sv_original (view key wl) =
     (case getOriginalReplicas (wl_annotations wl) of Inl _ \<Rightarrow> None | Inr n \<Rightarrow> Some n)"
  by (simp_all add: view_def)

lemma view_SetReplicas: "view key (SetReplicas n wl) = (view key wl)\<lparr>sv_replicas := n\<rparr>"
  by (simp add: view_def)

lemma to_state_get [simp]: "anno_get (wl_annotations (to_state key s wl)) key = s"
  by (simp add: to_state_def)

lemma same_identity_to_state: "key \<in> set sets \<Longrightarrow> same_identity sets owned wl (to_state key s wl)"
  by (auto simp: to_state_def anno_lookup_make intro!: same_identity_intro)

lemma same_identity_to_state_replicas:
  "key \<in> set sets \<Longrightarrow> same_identity sets owned wl (to_state key s (SetReplicas n wl))"
  by (auto simp: to_state_def anno_lookup_make intro!: same_identity_intro)

lemmas identity_intros = same_identity_to_state same_identity_to_state_replicas same_identity_SetReplicas

section \<open>The contract of a controller's keys\<close>

text \<open>
  A write of a controller: a step of the abstract machine that keeps the identity; where the
  controller cannot yield, a write that ends the operation clears all owned keys.
\<close>

definition surge_write ::
  "bool \<Rightarrow> string \<Rightarrow> string list \<Rightarrow> string list \<Rightarrow> DrainableWorkload \<Rightarrow> DrainableWorkload \<Rightarrow> bool" where
  "surge_write may_yield key sets owned wl wl' \<longleftrightarrow>
     surge_step may_yield (view key wl) (view key wl') \<and> same_identity sets owned wl wl' \<and>
     (may_yield \<or> anno_get (wl_annotations wl') key \<noteq> '''' \<or> cleared owned (wl_annotations wl) (wl_annotations wl'))"

text \<open>The keys the drain controller sets: all owned ones but those of the restart surge.\<close>

definition drain_sets :: "string list" where
  "drain_sets =
     [AnnotationDrainState, AnnotationOriginalReplicas, AnnotationDrainNode, AnnotationDrainStart,
      AnnotationHPAName, AnnotationHPAOriginalMinReplicas]"

lemma drain_sets_simps [simp]:
  "AnnotationDrainState \<in> set drain_sets" "AnnotationOriginalReplicas \<in> set drain_sets"
  "AnnotationDrainNode \<in> set drain_sets" "AnnotationDrainStart \<in> set drain_sets"
  "AnnotationHPAName \<in> set drain_sets" "AnnotationHPAOriginalMinReplicas \<in> set drain_sets"
  "AnnotationRestartSurgeState \<notin> set drain_sets" "AnnotationRestartSurgeStart \<notin> set drain_sets"
  by (simp_all add: drain_sets_def key_simps)

lemma drain_sets_owned: "set drain_sets \<subseteq> set drainAnnotationKeys"
  by (simp add: drain_sets_def)

abbreviation drain_write :: "DrainableWorkload \<Rightarrow> DrainableWorkload \<Rightarrow> bool" where
  "drain_write \<equiv> surge_write False AnnotationDrainState drain_sets drainAnnotationKeys"

abbreviation restart_write :: "DrainableWorkload \<Rightarrow> DrainableWorkload \<Rightarrow> bool" where
  "restart_write \<equiv> surge_write True AnnotationRestartSurgeState restartSurgeFullKeys restartSurgeFullKeys"

lemma surge_write_activeI:
  "surge_step y (view key wl) (view key wl') \<Longrightarrow> same_identity sets owned wl wl' \<Longrightarrow>
     anno_get (wl_annotations wl') key \<noteq> '''' \<Longrightarrow> surge_write y key sets owned wl wl'"
  by (simp add: surge_write_def)

lemma surge_write_yieldI:
  "surge_step True (view key wl) (view key wl') \<Longrightarrow> same_identity sets owned wl wl' \<Longrightarrow>
     surge_write True key sets owned wl wl'"
  by (simp add: surge_write_def)

lemma surge_write_clearI:
  "surge_step y (view key wl) (view key wl') \<Longrightarrow> same_identity sets owned wl wl' \<Longrightarrow>
     cleared owned (wl_annotations wl) (wl_annotations wl') \<Longrightarrow> surge_write y key sets owned wl wl'"
  by (simp add: surge_write_def)

lemma surge_step_via: "surge_step y v w \<Longrightarrow> w = v' \<Longrightarrow> surge_step y v v'"
  by simp

lemmas surge_stepI = surge_step.intros [THEN surge_step_via]

locale surge_writer =
  fixes key :: string
    and may_yield :: bool
    and sets :: "string list"
    and owned :: "string list"
    and clear :: "annotations option \<Rightarrow> annotations option"
  assumes key_sets: "key \<in> set sets"
    and sets_owned: "set sets \<subseteq> set owned"
    and bookkeeping_owned: "AnnotationOriginalReplicas \<in> set owned" "AnnotationHPAName \<in> set owned"
    and owned_drain: "set owned \<subseteq> set drainAnnotationKeys"
    and key_not_bookkeeping [simp]: "key \<noteq> AnnotationOriginalReplicas" "key \<noteq> AnnotationHPAName"
      "key \<noteq> AnnotationHPAOriginalMinReplicas"
    and clear_owned: "clear = delete_keys owned"
begin

abbreviation writes_to :: "DrainableWorkload \<Rightarrow> DrainableWorkload \<Rightarrow> bool" where
  "writes_to \<equiv> surge_write may_yield key sets owned"

lemma key_owned: "key \<in> set owned"
  using key_sets sets_owned by blast

lemma view_to_state: "view key (to_state key s wl) = (view key wl)\<lparr>sv_phase := phase_of s\<rparr>"
  using key_not_bookkeeping by (auto simp: view_def to_state_def)

lemma lookup_clear: "anno_lookup (clear a) k = (if k \<in> set owned then None else anno_lookup a k)"
  by (simp add: clear_owned)

lemma cleared_clear: "cleared owned a (clear a)"
  by (simp add: clear_owned)

lemma same_identity_clear: "same_identity sets owned wl (SetAnnotations (clear (wl_annotations wl)) wl)"
  by (simp add: same_identity_def clear_owned)

lemma view_clear:
  "view key (SetAnnotations (clear (wl_annotations wl)) wl) =
     (view key wl)\<lparr>sv_phase := Idle, sv_original := None, sv_hpa := ''''\<rparr>"
  using getOriginalReplicas_delete_keys [of owned "wl_annotations wl"] key_owned bookkeeping_owned
  by (auto simp: view_def clear_owned)

lemma aborted_eq: "aborted clear wl = SetAnnotations (clear (wl_annotations (restored wl))) (restored wl)"
  by (simp add: aborted_def)

lemma view_aborted:
  "view key (aborted clear wl) =
     (view key wl)\<lparr>sv_phase := Idle,
        sv_replicas := (case sv_original (view key wl) of Some k \<Rightarrow> k | None \<Rightarrow> sv_replicas (view key wl)),
        sv_original := None, sv_hpa := ''''\<rparr>"
  unfolding aborted_eq view_clear by (auto simp: view_def restored_def split: sum.splits)

lemma write_start:
  assumes "anno_get (wl_annotations wl) key = ''''" "GetReplicas wl = 1"
    and "anno_get (Some m) key = DrainStateScaledUp" "getOriginalReplicas (Some m) = Inr 1"
    "anno_get (Some m) AnnotationHPAName = anno_get (wl_annotations wl) AnnotationHPAName"
    and "\<And>k. k \<notin> set sets \<Longrightarrow> m k = anno_lookup (wl_annotations wl) k"
  shows "writes_to wl (SetReplicas 2 (SetAnnotations (Some m) wl))"
  using assms by (intro surge_write_activeI surge_stepI(1) same_identity_intro) (simp_all add: view_def)

lemma write_start_hpa:
  assumes "anno_get (wl_annotations wl) key = ''''" "GetReplicas wl = 1"
    and "anno_get (Some m) key = DrainStateScaledUp" "getOriginalReplicas (Some m) = Inr 1"
    and "\<And>k. k \<notin> set sets \<Longrightarrow> m k = anno_lookup (wl_annotations wl) k"
  shows "writes_to wl (SetAnnotations (Some m) wl)"
  using assms by (intro surge_write_activeI surge_stepI(2) same_identity_intro) (simp_all add: view_def)

lemma write_reapply:
  assumes "anno_get (wl_annotations wl) key = DrainStatePending"
    "getOriginalReplicas (wl_annotations wl) = Inr k" "sint (GetReplicas wl) \<le> sint k"
  shows "writes_to wl (to_state key DrainStateScaledUp (SetReplicas (k + 1) wl))"
  using assms key_sets
  by (intro surge_write_activeI surge_stepI(3) [where p = ScaledUp] identity_intros)
    (simp_all add: view_to_state view_SetReplicas, simp add: view_def)

lemma write_reapply_same:
  assumes "anno_get (wl_annotations wl) key = s" "s = DrainStatePending \<or> s = DrainStateScaledUp"
    "getOriginalReplicas (wl_annotations wl) = Inr k" "sint (GetReplicas wl) \<le> sint k"
  shows "writes_to wl (SetReplicas (k + 1) wl)"
  using assms
  by (intro surge_write_activeI surge_stepI(3) [where p = "phase_of s"] identity_intros) (auto simp: view_def)

lemma write_confirm:
  assumes "anno_get (wl_annotations wl) key = DrainStatePending"
    "getOriginalReplicas (wl_annotations wl) = Inr k" "sint k < sint (GetReplicas wl)"
  shows "writes_to wl (to_state key DrainStateScaledUp wl)"
  using assms key_sets
  by (intro surge_write_activeI surge_stepI(4) identity_intros) (simp_all add: view_to_state)

lemma write_ready:
  assumes "anno_get (wl_annotations wl) key = DrainStateScaledUp"
    "anno_get (wl_annotations wl) AnnotationHPAName \<noteq> '''' \<or>
     (\<exists>k. getOriginalReplicas (wl_annotations wl) = Inr k \<and> sint k < sint (GetReplicas wl))"
  shows "writes_to wl (to_state key DrainStateReady wl)"
  using assms key_sets
  by (intro surge_write_activeI surge_stepI(5) identity_intros) (auto simp: view_to_state)

lemma write_scale_down:
  assumes "anno_get (wl_annotations wl) key = DrainStateReady"
    "getOriginalReplicas (wl_annotations wl) = Inr k"
  shows "writes_to wl (to_state key DrainStateDraining
     (if anno_get (wl_annotations wl) AnnotationHPAName = '''' then SetReplicas k wl else wl))"
  using assms key_sets
  by (cases "anno_get (wl_annotations wl) AnnotationHPAName = ''''"; intro surge_write_activeI surge_stepI(6))
    (auto simp: view_to_state view_SetReplicas intro!: identity_intros)

lemma write_finish:
  assumes "anno_get (wl_annotations wl) key = DrainStateDraining"
    "getOriginalReplicas (wl_annotations wl) = Inr k"
  shows "writes_to wl (to_state key DrainStateDone
     (if anno_get (wl_annotations wl) AnnotationHPAName = '''' \<and> GetReplicas wl \<noteq> k
      then SetReplicas k wl else wl))"
  using assms key_sets
  by (cases "anno_get (wl_annotations wl) AnnotationHPAName = '''' \<and> GetReplicas wl \<noteq> k";
      intro surge_write_activeI surge_stepI(7))
    (auto simp: view_to_state view_SetReplicas intro!: identity_intros)

lemma write_cleanup:
  assumes "anno_get (wl_annotations wl) key = DrainStateDone"
  shows "writes_to wl (SetAnnotations (clear (wl_annotations wl)) wl)"
  using assms by (intro surge_write_clearI surge_stepI(8) same_identity_clear) (simp_all add: view_clear cleared_clear)

lemma same_identity_aborted: "same_identity sets owned wl (aborted clear wl)"
  by (simp add: aborted_def restored_def same_identity_def clear_owned split: sum.splits)

lemma cleared_aborted: "cleared owned (wl_annotations wl) (wl_annotations (aborted clear wl))"
  by (simp add: aborted_def cleared_clear)

lemma write_aborted:
  assumes "anno_get (wl_annotations wl) key \<noteq> ''''"
  shows "writes_to wl (aborted clear wl)"
  using assms by (intro surge_write_clearI surge_stepI(9) same_identity_aborted) (simp_all add: view_aborted cleared_aborted)

end

end
