(* ===== verification/NodeController.thy ===== *)
theory NodeController
  imports SurgeWrites "HOL-Library.AList"
begin

text \<open>
  \<^verbatim>\<open>src/internal/controller/node_controller.go\<close>: the drain-surge controller. One definition per
  method of \<open>NodeReconciler\<close>, over the platform \<open>K\<close> (its client, recorder and clock) and the
  configuration \<open>cfg\<close>. Log lines are left out; events are recorded. A Go map of workloads is an
  association list with one entry per key, iterated in the order the platform picks.
\<close>

section \<open>Workload mutations\<close>

text \<open>\<open>meta.Annotations[k] = v\<close> on the workload's own metadata.\<close>

definition annotate :: "string \<Rightarrow> string \<Rightarrow> DrainableWorkload \<Rightarrow> error + DrainableWorkload" where
  "annotate k v wl =
     (case anno_set (wl_annotations wl) k v of Inl e \<Rightarrow> Inl e | Inr a \<Rightarrow> Inr (SetAnnotations a wl))"

definition requeue_after :: "Duration \<Rightarrow> Result" where
  "requeue_after d = \<lparr>RequeueAfter = d\<rparr>"

lemma annotate_Some [simp]:
  "wl_annotations wl = Some m \<Longrightarrow> annotate k v wl = Inr (SetAnnotations (Some (m(k \<mapsto> v))) wl)"
  by (simp add: annotate_def)

lemma annotate_SetAnnotations [simp]:
  "annotate k v (SetAnnotations (Some m) wl) = Inr (SetAnnotations (Some (m(k \<mapsto> v))) wl)"
  by (simp add: annotate_def)

section \<open>Taints, autoscaler restore, abort\<close>

fun taint_in :: "Taint \<Rightarrow> DrainTaint list \<Rightarrow> bool" where
  "taint_in t [] = False"
| "taint_in t (dt # dts) = (if taint_Key t = dt_Key dt then True else taint_in t dts)"

fun any_taint_in :: "Taint list \<Rightarrow> DrainTaint list \<Rightarrow> bool" where
  "any_taint_in [] dts = False"
| "any_taint_in (t # ts) dts = (if taint_in t dts then True else any_taint_in ts dts)"

definition hasDrainTaint :: "Config \<Rightarrow> Node \<Rightarrow> bool" where
  "hasDrainTaint cfg node = any_taint_in (node_Taints node) (DrainTaints cfg)"

definition restoreHPA :: "'s platform \<Rightarrow> ObjectMeta \<Rightarrow> ('s, error + unit) api_prog" where
  "restoreHPA K meta =
     (let hpaName = anno_get (Annotations meta) AnnotationHPAName
      in if hpaName = '''' then ret (Inr ())
         else let originalMinStr = anno_get (Annotations meta) AnnotationHPAOriginalMinReplicas
              in case strconv_Atoi originalMinStr of
                   Inl e \<Rightarrow> ret (Inl (Wrap ''invalid %s value %q: %w''
                              [ArgS AnnotationHPAOriginalMinReplicas, ArgS originalMinStr] e))
                 | Inr originalMin \<Rightarrow>
                     PatchHPAMinReplicas K (Namespace meta) hpaName (word_of_int originalMin))"

definition abortWorkload :: "'s platform \<Rightarrow> DrainableWorkload \<Rightarrow> ('s, error + Result) api_prog" where
  "abortWorkload K wl = do {
     _ \<leftarrow> restoreHPA K (GetObjectMeta wl);
     let wl = (case getOriginalReplicas (wl_annotations wl) of
                 Inr original \<Rightarrow> SetReplicas original wl | Inl _ \<Rightarrow> wl);
     let wl = SetAnnotations (clearDrainAnnotations (wl_annotations wl)) wl;
     checked (wrap_error ''abort workload: %w'' []) (Patch K wl) (\<lambda>obj. do {
       Eventf K obj EventTypeWarning ''DrainAborted'' ''Drain surge operation aborted'' [];
       ret (Inr ctrl_Result)
     })
   }"

section \<open>The handlers of the state machine\<close>

definition handlePending ::
  "'s platform \<Rightarrow> Config \<Rightarrow> DrainableWorkload \<Rightarrow> string \<Rightarrow> ('s, error + Result) api_prog" where
  "handlePending K cfg wl nodeName =
     checked id (FindMatchingPDB K (Namespace (GetObjectMeta wl)) (GetPodSelector K wl)) (\<lambda>hasPDB.
       if \<not> hasPDB then do {
         Eventf K (Object wl) EventTypeWarning ''NoPDB''
           (''No PodDisruptionBudget found matching workload pods '' @ em_dash @ '' skipping drain surge'') [];
         ret (Inr ctrl_Result)
       }
       else do {
         let originalReplicas = GetReplicas wl;
         now \<leftarrow> time_Now K;
         let wl = SetAnnotations (Some ((anno_make (wl_annotations wl))
               (AnnotationDrainState \<mapsto> DrainStateScaledUp,
                AnnotationOriginalReplicas \<mapsto> strconv_Itoa (sint originalReplicas),
                AnnotationDrainNode \<mapsto> nodeName,
                AnnotationDrainStart \<mapsto> time_Format_RFC3339 now))) wl;
         checked id (FindMatchingHPA K (Namespace (GetObjectMeta wl)) (Name (GetObjectMeta wl)) (GetObjectKind wl))
           (\<lambda>found. case found of
              Some hpa \<Rightarrow>
                if hpa_MaxReplicas hpa <s originalReplicas + 1 then do {
                  Eventf K (Object wl) EventTypeWarning ''DrainSkipped'' ''HPA maxReplicas=%d prevents drain surge''
                    [ArgD (sint (hpa_MaxReplicas hpa))];
                  ret (Inr ctrl_Result)
                }
                else if IsHPAAtMinReplicas hpa (originalReplicas + 1) then
                  (case hpa_MinReplicas hpa of
                     None \<Rightarrow> ret (Inl (Panic ''nil pointer dereference''))
                   | Some _ \<Rightarrow> ret (Inr (requeue_after (250 * time_Millisecond))))
                else
                  let originalMin = HPAMinReplicasOrDefault hpa; hpaName = Name (hpa_ObjectMeta hpa)
                  in case annotate AnnotationHPAName hpaName wl of Inl e \<Rightarrow> ret (Inl e) | Inr wl \<Rightarrow>
                  (case annotate AnnotationHPAOriginalMinReplicas (strconv_Itoa (sint originalMin)) wl of
                     Inl e \<Rightarrow> ret (Inl e) | Inr wl \<Rightarrow>
                  checked (wrap_error ''patch workload for scale-up: %w'' []) (Patch K wl) (\<lambda>obj.
                  checked (wrap_error ''patch HPA minReplicas for scale-up: %w'' [])
                    (PatchHPAMinReplicas K (Namespace (object_meta obj)) hpaName (originalReplicas + 1)) (\<lambda>_. do {
                      Eventf K obj EventTypeNormal ''DrainSurge''
                        ''Patched HPA %s minReplicas from %d to %d for node drain on %s''
                        [ArgS hpaName, ArgD (sint originalMin), ArgD (sint (originalReplicas + 1)), ArgS nodeName];
                      ret (Inr (requeue_after (RequeueInterval cfg)))
                    })))
            | None \<Rightarrow> do {
                let wl = SetReplicas (originalReplicas + 1) wl;
                Eventf K (Object wl) EventTypeNormal ''DrainSurge'' ''Scaled up from %d to %d for node drain on %s''
                  [ArgD (sint originalReplicas), ArgD (sint (originalReplicas + 1)), ArgS nodeName];
                checked (wrap_error ''patch workload for scale-up: %w'' []) (Patch K wl)
                  (\<lambda>_. ret (Inr (requeue_after (RequeueInterval cfg))))
              })
       })"

definition handleScaleUp ::
  "'s platform \<Rightarrow> Config \<Rightarrow> DrainableWorkload \<Rightarrow> string \<Rightarrow> ('s, error + Result) api_prog" where
  "handleScaleUp K cfg wl nodeName =
     (case getOriginalReplicas (wl_annotations wl) of
        Inl _ \<Rightarrow> abortWorkload K wl
      | Inr original \<Rightarrow> do {
          wl \<leftarrow> (if GetReplicas wl \<le>s original then do {
                   Eventf K (Object wl) EventTypeWarning ''CompetingController''
                     ''Replicas were reset externally during drain surge'' [];
                   ret (SetReplicas (original + 1) wl)
                 } else ret wl);
          (case annotate AnnotationDrainState DrainStateScaledUp wl of Inl e \<Rightarrow> ret (Inl e) | Inr wl \<Rightarrow>
           checked (wrap_error ''patch workload for scale-up (reentrant): %w'' []) (Patch K wl)
             (\<lambda>_. ret (Inr (requeue_after (RequeueInterval cfg)))))
        })"

text \<open>The second half of \<open>handleWaitReady\<close>: look for a ready pod on another node.\<close>

definition waitReady_check ::
  "'s platform \<Rightarrow> Config \<Rightarrow> DrainableWorkload \<Rightarrow> string \<Rightarrow> ('s, error + Result) api_prog" where
  "waitReady_check K cfg wl nodeName =
     checked id (FindReadyPodOnOtherNode K (Namespace (GetObjectMeta wl)) (GetPodSelector K wl) nodeName) (\<lambda>ready.
       if ready then
         (case annotate AnnotationDrainState DrainStateReady wl of Inl e \<Rightarrow> ret (Inl e) | Inr wl \<Rightarrow>
          checked (wrap_error ''patch workload to ready: %w'' []) (Patch K wl)
            (\<lambda>_. ret (Inr (requeue_after (RequeueInterval cfg)))))
       else ret (Inr (requeue_after (RequeueInterval cfg))))"

definition handleWaitReady ::
  "'s platform \<Rightarrow> Config \<Rightarrow> DrainableWorkload \<Rightarrow> string \<Rightarrow> ('s, error + Result) api_prog" where
  "handleWaitReady K cfg wl nodeName =
     (if anno_get (wl_annotations wl) AnnotationHPAName = '''' then
        (case getOriginalReplicas (wl_annotations wl) of
           Inl _ \<Rightarrow> abortWorkload K wl
         | Inr original \<Rightarrow>
             if GetReplicas wl \<le>s original then
               checked (wrap_error ''re-apply scale-up: %w'' []) (Patch K (SetReplicas (original + 1) wl))
                 (\<lambda>_. ret (Inr (requeue_after (RequeueInterval cfg))))
             else waitReady_check K cfg wl nodeName)
      else waitReady_check K cfg wl nodeName)"

definition handleWaitEviction ::
  "'s platform \<Rightarrow> Config \<Rightarrow> DrainableWorkload \<Rightarrow> string \<Rightarrow> ('s, error + Result) api_prog" where
  "handleWaitEviction K cfg wl nodeName =
     checked id (FindPodOnNode K (Namespace (GetObjectMeta wl)) (GetPodSelector K wl) nodeName) (\<lambda>podOnNode.
       if \<not> podOnNode then
         checked (wrap_error ''restore HPA after eviction: %w'' []) (restoreHPA K (GetObjectMeta wl)) (\<lambda>_.
           case getOriginalReplicas (wl_annotations wl) of
             Inl _ \<Rightarrow> abortWorkload K wl
           | Inr original \<Rightarrow>
               let wl = (if anno_get (wl_annotations wl) AnnotationHPAName = '''' then SetReplicas original wl else wl)
               in case annotate AnnotationDrainState DrainStateDraining wl of Inl e \<Rightarrow> ret (Inl e) | Inr wl \<Rightarrow>
                  checked (wrap_error ''patch workload for scale-down: %w'' []) (Patch K wl) (\<lambda>obj. do {
                    Eventf K obj EventTypeNormal ''DrainScaleDown'' ''Scaled down to %d after pod eviction from %s''
                      [ArgD (sint original), ArgS nodeName];
                    ret (Inr (requeue_after (RequeueInterval cfg)))
                  }))
       else ret (Inr (requeue_after (RequeueInterval cfg))))"

definition handleScaleDown :: "'s platform \<Rightarrow> Config \<Rightarrow> DrainableWorkload \<Rightarrow> ('s, error + Result) api_prog" where
  "handleScaleDown K cfg wl =
     (case getOriginalReplicas (wl_annotations wl) of
        Inl _ \<Rightarrow> abortWorkload K wl
      | Inr original \<Rightarrow>
          let wl = (if anno_get (wl_annotations wl) AnnotationHPAName = '''' \<and> GetReplicas wl \<noteq> original
                    then SetReplicas original wl else wl)
          in case annotate AnnotationDrainState DrainStateDone wl of Inl e \<Rightarrow> ret (Inl e) | Inr wl \<Rightarrow>
             checked (wrap_error ''patch workload to done: %w'' []) (Patch K wl)
               (\<lambda>_. ret (Inr (requeue_after (RequeueInterval cfg)))))"

definition handleCleanup :: "'s platform \<Rightarrow> DrainableWorkload \<Rightarrow> ('s, error + Result) api_prog" where
  "handleCleanup K wl =
     (let wl = SetAnnotations (clearDrainAnnotations (wl_annotations wl)) wl
      in checked (wrap_error ''patch workload for cleanup: %w'' []) (Patch K wl) (\<lambda>obj. do {
           Eventf K obj EventTypeNormal ''DrainComplete'' ''Drain surge operation completed successfully'' [];
           ret (Inr ctrl_Result)
         }))"

section \<open>Reconciling one workload\<close>

definition shouldProcess ::
  "'s platform \<Rightarrow> Config \<Rightarrow> DrainableWorkload \<Rightarrow> string \<Rightarrow> ('s, bool) api_prog" where
  "shouldProcess K cfg wl nodeName =
     (if anno_get (wl_annotations wl) (EnabledAnnotation cfg) \<noteq> ''true'' then ret False
      else if GetReplicas wl \<noteq> 1 then ret False
      else if \<not> IsStable wl then do {
        Eventf K (Object wl) EventTypeWarning ''DrainSkipped''
          (''Workload is not in a stable state '' @ em_dash @ '' skipping drain surge'') [];
        ret False
      }
      else if anno_get (wl_annotations wl) AnnotationDrainNode \<noteq> '''' \<and>
              anno_get (wl_annotations wl) AnnotationDrainNode \<noteq> nodeName then ret False
      else if \<not> CanSurge wl then do {
        Eventf K (Object wl) EventTypeWarning ''DrainSkipped'' ''Workload strategy does not support drain surge'' [];
        ret False
      }
      else do {
        found \<leftarrow> FindMatchingHPA K (Namespace (GetObjectMeta wl)) (Name (GetObjectMeta wl)) (GetObjectKind wl);
        (case found of
           Inl _ \<Rightarrow> ret False
         | Inr None \<Rightarrow> ret True
         | Inr (Some hpa) \<Rightarrow>
             if hpa_MaxReplicas hpa \<le>s 1 then do {
               Eventf K (Object wl) EventTypeWarning ''DrainSkipped'' ''HPA maxReplicas=1 prevents drain surge'' [];
               ret False
             } else ret True)
      })"

text \<open>
  The stale and timeout checks at the head of \<open>reconcileWorkload\<close>: \<open>Some\<close> of what the abort
  returned when the operation has overrun, \<open>None\<close> when the reconcile goes on.
\<close>

definition drain_overrun ::
  "'s platform \<Rightarrow> Config \<Rightarrow> DrainableWorkload \<Rightarrow> string \<Rightarrow> ('s, (error + Result) option) api_prog" where
  "drain_overrun K cfg wl nodeName =
     (case parseDrainStart (wl_annotations wl) of
        None \<Rightarrow> ret None
      | Some drainStart \<Rightarrow> do {
          now \<leftarrow> time_Now K;
          let elapsed = time_Sub now drainStart;
          (if 3 * ReadinessTimeout cfg <s elapsed then do {
             Eventf K (Object wl) EventTypeWarning ''DrainStale'' ''Force aborting stale drain operation on node %s''
               [ArgS nodeName];
             r \<leftarrow> abortWorkload K wl;
             ret (Some r)
           }
           else if ReadinessTimeout cfg <s elapsed then do {
             Eventf K (Object wl) EventTypeWarning ''DrainTimeout'' ''Drain operation timed out on node %s''
               [ArgS nodeName];
             r \<leftarrow> abortWorkload K wl;
             ret (Some r)
           }
           else ret None)
        })"

text \<open>The switch at the end of \<open>reconcileWorkload\<close>.\<close>

definition drain_dispatch ::
  "'s platform \<Rightarrow> Config \<Rightarrow> DrainableWorkload \<Rightarrow> string \<Rightarrow> DrainState \<Rightarrow> ('s, error + Result) api_prog" where
  "drain_dispatch K cfg wl nodeName currentState =
     (if currentState = DrainStateNone then handlePending K cfg wl nodeName
      else if currentState = DrainStatePending then handleScaleUp K cfg wl nodeName
      else if currentState = DrainStateScaledUp then handleWaitReady K cfg wl nodeName
      else if currentState = DrainStateReady then handleWaitEviction K cfg wl nodeName
      else if currentState = DrainStateDraining then handleScaleDown K cfg wl
      else if currentState = DrainStateDone then handleCleanup K wl
      else abortWorkload K wl)"

definition reconcileWorkload ::
  "'s platform \<Rightarrow> Config \<Rightarrow> DrainableWorkload \<Rightarrow> string \<Rightarrow> ('s, error + Result) api_prog" where
  "reconcileWorkload K cfg wl nodeName = do {
     let annotations = wl_annotations wl;
     let currentState = anno_get annotations AnnotationDrainState;
     let isActive = (currentState \<noteq> DrainStateNone \<and> currentState \<noteq> DrainStateDone);
     overrun \<leftarrow> (if isActive then drain_overrun K cfg wl nodeName else ret None);
     (case overrun of
        Some r \<Rightarrow> ret r
      | None \<Rightarrow>
          if currentState = DrainStateNone \<or> currentState = '''' then do {
            ok \<leftarrow> shouldProcess K cfg wl nodeName;
            (if \<not> ok then ret (Inr ctrl_Result) else drain_dispatch K cfg wl nodeName currentState)
          }
          else if anno_get annotations AnnotationDrainNode \<noteq> '''' \<and>
                  anno_get annotations AnnotationDrainNode \<noteq> nodeName then ret (Inr ctrl_Result)
          else drain_dispatch K cfg wl nodeName currentState)
   }"

section \<open>Reconciling a node\<close>

type_synonym workload_map = "(string \<times> DrainableWorkload) list"

definition wl_key :: "DrainableWorkload \<Rightarrow> string" where
  "wl_key wl = workloadKey (Namespace (GetObjectMeta wl)) (Name (GetObjectMeta wl))"

text \<open>\<open>if _, exists := m[k]; !exists { m[k] = v }\<close>\<close>

definition put_if_absent :: "string \<Rightarrow> DrainableWorkload \<Rightarrow> workload_map \<Rightarrow> workload_map" where
  "put_if_absent k wl m = (case map_of m k of None \<Rightarrow> m @ [(k, wl)] | Some _ \<Rightarrow> m)"

text \<open>\<open>for key, wl := range m\<close>, in the order the platform picks.\<close>

definition range_map :: "'s platform \<Rightarrow> workload_map \<Rightarrow> workload_map" where
  "range_map K m = List.map_filter (\<lambda>k. map_option (Pair k) (map_of m k)) (pf_range_order K (map fst m))"

definition findWorkloadsWithDrainNode ::
  "'s platform \<Rightarrow> string \<Rightarrow> ('s, error + workload_map) api_prog" where
  "findWorkloadsWithDrainNode K nodeName =
     checked (wrap_error ''list rollouts: %w'' [])
       (client_call (ListRolloutsByDrainNode nodeName) (pf_ListRolloutsByDrainNode K nodeName)) (\<lambda>ros.
     checked (wrap_error ''list deployments: %w'' [])
       (client_call (ListDeploymentsByDrainNode nodeName) (pf_ListDeploymentsByDrainNode K nodeName)) (\<lambda>deps.
     ret (Inr (fold (\<lambda>wl. AList.update (wl_key wl) wl)
       (map RolloutWorkload ros @ map DeploymentWorkload deps) []))))"

fun abort_all ::
  "'s platform \<Rightarrow> workload_map \<Rightarrow> error list \<Rightarrow> ('s, error + error list) api_prog" where
  "abort_all K [] errs = ret (Inr errs)"
| "abort_all K ((k, wl) # ws) errs = do {
     r \<leftarrow> abortWorkload K wl;
     (case r of
        Inl e \<Rightarrow> if is_panic e then ret (Inl e) else abort_all K ws (errs @ [e])
      | Inr _ \<Rightarrow> abort_all K ws errs)
   }"

definition abortWorkloadsForNode :: "'s platform \<Rightarrow> string \<Rightarrow> ('s, error + Result) api_prog" where
  "abortWorkloadsForNode K nodeName =
     checked id (findWorkloadsWithDrainNode K nodeName) (\<lambda>ws.
     checked id (abort_all K (range_map K ws) []) (\<lambda>errs.
       case errors_Join errs of None \<Rightarrow> ret (Inr ctrl_Result) | Some e \<Rightarrow> ret (Inl e)))"

fun resolve_pods :: "'s platform \<Rightarrow> Pod list \<Rightarrow> workload_map \<Rightarrow> ('s, workload_map) api_prog" where
  "resolve_pods K [] ws = ret ws"
| "resolve_pods K (pod # pods) ws =
     (if pod_Phase pod = PodSucceeded \<or> pod_Phase pod = PodFailed \<or> DeletionTimestamp (pod_ObjectMeta pod) \<noteq> None
      then resolve_pods K pods ws
      else do {
        r \<leftarrow> ResolveWorkloadFromPod K pod;
        (case r of
           Inl _ \<Rightarrow> resolve_pods K pods ws
         | Inr None \<Rightarrow> resolve_pods K pods ws
         | Inr (Some wl) \<Rightarrow> resolve_pods K pods (put_if_absent (wl_key wl) wl ws))
      })"

definition merge_requeue :: "Duration \<Rightarrow> Result \<Rightarrow> Duration" where
  "merge_requeue d res =
     (if 0 <s RequeueAfter res \<and> (d = 0 \<or> RequeueAfter res <s d) then RequeueAfter res else d)"

fun reconcile_all ::
  "'s platform \<Rightarrow> Config \<Rightarrow> string \<Rightarrow> workload_map \<Rightarrow> Duration \<Rightarrow> ('s, error + Duration) api_prog" where
  "reconcile_all K cfg nodeName [] d = ret (Inr d)"
| "reconcile_all K cfg nodeName ((k, wl) # ws) d = do {
     r \<leftarrow> reconcileWorkload K cfg wl nodeName;
     (case r of
        Inl e \<Rightarrow> if is_panic e then ret (Inl e) else reconcile_all K cfg nodeName ws d
      | Inr res \<Rightarrow> reconcile_all K cfg nodeName ws (merge_requeue d res))
   }"

text \<open>The second half of \<open>Reconcile\<close>, for a node that carries a drain taint.\<close>

definition reconcileTaintedNode :: "'s platform \<Rightarrow> Config \<Rightarrow> Node \<Rightarrow> ('s, error + Result) api_prog" where
  "reconcileTaintedNode K cfg node =
     checked (wrap_error ''list pods on node: %w'' [])
       (client_call (ListPodsOnNode (node_Name node)) (pf_ListPodsOnNode K (node_Name node))) (\<lambda>pods. do {
         workloads \<leftarrow> resolve_pods K pods [];
         existing \<leftarrow> findWorkloadsWithDrainNode K (node_Name node);
         let workloads = (case existing of
               Inl _ \<Rightarrow> workloads
             | Inr ws \<Rightarrow> fold (\<lambda>(k, wl). put_if_absent k wl) (range_map K ws) workloads);
         (if length workloads = 0 then ret (Inr ctrl_Result)
          else checked id (reconcile_all K cfg (node_Name node) (range_map K workloads) 0)
            (\<lambda>d. if 0 <s d then ret (Inr (requeue_after d)) else ret (Inr ctrl_Result)))
       })"

definition Reconcile :: "'s platform \<Rightarrow> Config \<Rightarrow> string \<Rightarrow> ('s, error + Result) api_prog" where
  "Reconcile K cfg reqName = do {
     got \<leftarrow> call (GetNode reqName) (pf_GetNode K reqName);
     (case got of
        Inl e \<Rightarrow> if IsNotFound e then abortWorkloadsForNode K reqName else ret (Inl (Api e))
      | Inr node \<Rightarrow>
          if \<not> hasDrainTaint cfg node then abortWorkloadsForNode K (node_Name node)
          else reconcileTaintedNode K cfg node)
   }"

section \<open>Orphan recovery\<close>

fun tainted_names :: "Config \<Rightarrow> Node list \<Rightarrow> string list" where
  "tainted_names cfg [] = []"
| "tainted_names cfg (n # ns) =
     (if hasDrainTaint cfg n then node_Name n # tainted_names cfg ns else tainted_names cfg ns)"

definition is_orphan :: "string list \<Rightarrow> DrainableWorkload \<Rightarrow> bool" where
  "is_orphan tainted wl =
     (let drainNode = anno_get (wl_annotations wl) AnnotationDrainNode
      in drainNode \<noteq> '''' \<and> drainNode \<notin> set tainted)"

fun abort_orphans ::
  "'s platform \<Rightarrow> string list \<Rightarrow> DrainableWorkload list \<Rightarrow> ('s, error + unit) api_prog" where
  "abort_orphans K tainted [] = ret (Inr ())"
| "abort_orphans K tainted (wl # wls) =
     (if is_orphan tainted wl then do {
        r \<leftarrow> abortWorkload K wl;
        (case r of
           Inl e \<Rightarrow> if is_panic e then ret (Inl e) else abort_orphans K tainted wls
         | Inr _ \<Rightarrow> abort_orphans K tainted wls)
      }
      else abort_orphans K tainted wls)"

definition RecoverOrphans :: "'s platform \<Rightarrow> Config \<Rightarrow> ('s, error + unit) api_prog" where
  "RecoverOrphans K cfg =
     checked (wrap_error ''list nodes: %w'' []) (client_call ListNodes (pf_ListNodes K)) (\<lambda>nodes.
     let tainted = tainted_names cfg nodes in
     checked (wrap_error ''list rollouts: %w'' []) (client_call ListRollouts (pf_ListRollouts K)) (\<lambda>ros.
     checked id (abort_orphans K tainted (map RolloutWorkload ros)) (\<lambda>_.
     checked (wrap_error ''list deployments: %w'' []) (client_call ListDeployments (pf_ListDeployments K)) (\<lambda>deps.
     checked id (abort_orphans K tainted (map DeploymentWorkload deps)) (\<lambda>_. ret (Inr ()))))))"

section \<open>Indexes and watches\<close>

record Request =
  req_Namespace :: string
  req_Name :: string

definition podNodeNameIndex :: "Pod \<Rightarrow> string list" where
  "podNodeNameIndex pod = (if pod_NodeName pod = '''' then [] else [pod_NodeName pod])"

definition indexByDrainNodeAnnotation :: "client_Object \<Rightarrow> string list" where
  "indexByDrainNodeAnnotation obj =
     (let v = anno_get (Annotations (object_meta obj)) AnnotationDrainNode
      in if v = '''' then [] else [v])"

definition mapPodToNode :: "Pod \<Rightarrow> Request list" where
  "mapPodToNode pod =
     (if pod_NodeName pod = '''' then [] else [\<lparr>req_Namespace = '''', req_Name = pod_NodeName pod\<rparr>])"

definition mapWorkloadToNode :: "client_Object \<Rightarrow> Request list" where
  "mapWorkloadToNode obj =
     (let nodeName = anno_get (Annotations (object_meta obj)) AnnotationDrainNode
      in if nodeName = '''' then [] else [\<lparr>req_Namespace = '''', req_Name = nodeName\<rparr>])"

end
