(* ===== verification/RolloutController.thy ===== *)
theory RolloutController
  imports NodeController
begin

text \<open>
  \<^verbatim>\<open>src/internal/controller/rollout_controller.go\<close>: the restart-surge controller for Argo
  Rollouts. Besides the platform and the configuration each operation takes the reconciler's clock
  \<open>now\<close>: \<open>None\<close> is the nil function field, for which \<open>timeNow\<close> reads the platform's clock.
  The handlers work on a \<open>Rollout\<close>; the calls they share with the drain controller go through the
  interface value \<open>RolloutWorkload ro\<close>.
\<close>

section \<open>Clock, autoscaler restore, abort, yield\<close>

definition timeNow :: "'s platform \<Rightarrow> ('s, Time) state option \<Rightarrow> ('s, Time) api_prog" where
  "timeNow K now = (case now of Some f \<Rightarrow> call ReadClock f | None \<Rightarrow> time_Now K)"

definition restart_restoreHPA :: "'s platform \<Rightarrow> ObjectMeta \<Rightarrow> ('s, error + unit) api_prog" where
  "restart_restoreHPA K meta =
     (let hpaName = anno_get (Annotations meta) AnnotationHPAName
      in if hpaName = '''' then ret (Inr ())
         else let originalMinStr = anno_get (Annotations meta) AnnotationHPAOriginalMinReplicas
              in case strconv_Atoi originalMinStr of
                   Inl e \<Rightarrow> ret (Inl (Wrap ''invalid %s value %q: %w''
                              [ArgS AnnotationHPAOriginalMinReplicas, ArgS originalMinStr] e))
                 | Inr originalMin \<Rightarrow>
                     PatchHPAMinReplicas K (Namespace meta) hpaName (word_of_int originalMin))"

definition abortRestartSurge :: "'s platform \<Rightarrow> DrainableWorkload \<Rightarrow> ('s, error + Result) api_prog" where
  "abortRestartSurge K wl = do {
     _ \<leftarrow> restart_restoreHPA K (GetObjectMeta wl);
     let wl = (case getOriginalReplicas (wl_annotations wl) of
                 Inr original \<Rightarrow> SetReplicas original wl | Inl _ \<Rightarrow> wl);
     let wl = SetAnnotations (clearRestartSurgeAnnotations (wl_annotations wl)) wl;
     checked (wrap_error ''abort restart-surge: %w'' []) (Patch K wl) (\<lambda>obj. do {
       Eventf K obj EventTypeWarning ''RestartSurgeAborted'' ''Restart-surge operation aborted'' [];
       ret (Inr ctrl_Result)
     })
   }"

definition yieldToDrain :: "'s platform \<Rightarrow> DrainableWorkload \<Rightarrow> ('s, error + Result) api_prog" where
  "yieldToDrain K wl =
     (let wl = (if anno_get (wl_annotations wl) AnnotationHPAName = ''''
                then (case getOriginalReplicas (wl_annotations wl) of
                        Inr original \<Rightarrow> SetReplicas original wl | Inl _ \<Rightarrow> wl)
                else wl);
          wl = SetAnnotations (clearRestartSurgeExclusiveAnnotations (wl_annotations wl)) wl
      in checked (wrap_error ''yield to drain: %w'' []) (Patch K wl) (\<lambda>obj. do {
           Eventf K obj EventTypeWarning ''RestartSurgeYielded'' ''Restart-surge yielded to in-progress drain'' [];
           ret (Inr ctrl_Result)
         }))"

section \<open>The handlers of the state machine\<close>

text \<open>The surge itself, the second half of \<open>handleRestartPending\<close>.\<close>

definition restart_surge ::
  "'s platform \<Rightarrow> Config \<Rightarrow> ('s, Time) state option \<Rightarrow> Rollout \<Rightarrow> ('s, error + Result) api_prog" where
  "restart_surge K cfg now ro = do {
     let wl = RolloutWorkload ro;
     let originalReplicas = GetReplicas wl;
     t \<leftarrow> timeNow K now;
     let wl = SetAnnotations (Some ((anno_make (wl_annotations wl))
           (AnnotationRestartSurgeState \<mapsto> DrainStateScaledUp,
            AnnotationOriginalReplicas \<mapsto> strconv_Itoa (sint originalReplicas),
            AnnotationRestartSurgeStart \<mapsto> time_Format_RFC3339 t))) wl;
     checked id (FindMatchingHPA K (Namespace (GetObjectMeta wl)) (Name (GetObjectMeta wl)) (GetObjectKind wl))
       (\<lambda>found. case found of
          Some hpa \<Rightarrow>
            if hpa_MaxReplicas hpa <s originalReplicas + 1 then do {
              Eventf K (Object wl) EventTypeWarning ''RestartSurgeSkipped'' ''HPA maxReplicas=%d prevents restart-surge''
                [ArgD (sint (hpa_MaxReplicas hpa))];
              ret (Inr ctrl_Result)
            }
            else if IsHPAAtMinReplicas hpa (originalReplicas + 1) then
              (case hpa_MinReplicas hpa of
                 None \<Rightarrow> ret (Inl (Panic ''nil pointer dereference''))
               | Some _ \<Rightarrow> ret (Inr (requeue_after (250 * time_Millisecond))))
            else
              let originalMin = HPAMinReplicasOrDefault hpa; hpaName = Name (hpa_ObjectMeta hpa)
              in case annotate AnnotationHPAName hpaName wl of Inl e \<Rightarrow> ret (Inl e) | Inr wl \<Rightarrow>
              (case annotate AnnotationHPAOriginalMinReplicas (strconv_Itoa (sint originalMin)) wl of
                 Inl e \<Rightarrow> ret (Inl e) | Inr wl \<Rightarrow>
              checked (wrap_error ''patch rollout for restart-surge scale-up: %w'' []) (Patch K wl) (\<lambda>obj.
              checked (wrap_error ''patch HPA minReplicas for restart-surge: %w'' [])
                (PatchHPAMinReplicas K (Namespace (object_meta obj)) hpaName (originalReplicas + 1)) (\<lambda>_. do {
                  Eventf K obj EventTypeNormal ''RestartSurgeStart''
                    ''Patched HPA %s minReplicas from %d to %d to unblock restart''
                    [ArgS hpaName, ArgD (sint originalMin), ArgD (sint (originalReplicas + 1))];
                  ret (Inr (requeue_after (RequeueInterval cfg)))
                })))
        | None \<Rightarrow>
            let wl = SetReplicas (originalReplicas + 1) wl
            in case ro_RestartAt ro of
                 None \<Rightarrow> ret (Inl (Panic ''nil pointer dereference''))
               | Some _ \<Rightarrow> do {
                   Eventf K (Object wl) EventTypeNormal ''RestartSurgeStart'' ''Restart blocked by PDB, scaled from %d to %d''
                     [ArgD (sint originalReplicas), ArgD (sint (originalReplicas + 1))];
                   checked (wrap_error ''patch rollout for restart-surge scale-up: %w'' []) (Patch K wl)
                     (\<lambda>_. ret (Inr (requeue_after (RequeueInterval cfg))))
                 })
   }"

definition handleRestartPending ::
  "'s platform \<Rightarrow> Config \<Rightarrow> ('s, Time) state option \<Rightarrow> Rollout \<Rightarrow> ('s, error + Result) api_prog" where
  "handleRestartPending K cfg now ro =
     (let wl = RolloutWorkload ro; meta = GetObjectMeta wl
      in if anno_get (Annotations meta) (EnabledAnnotation cfg) \<noteq> ''true'' then ret (Inr ctrl_Result)
         else if \<not> CanSurge wl then ret (Inr ctrl_Result)
         else if GetReplicas wl \<noteq> 1 then ret (Inr ctrl_Result)
         else checked id (listMatchingPods K (Namespace meta) (GetPodSelector K wl)) (\<lambda>pods. do {
           t \<leftarrow> timeNow K now;
           (if \<not> isRestartStuck ro pods (RestartSurgeGracePeriod cfg) t then
              (if ro_RestartAt ro \<noteq> None \<and> \<not> metav1_Time_Equal (ro_RestartedAt ro) (ro_RestartAt ro)
               then ret (Inr (requeue_after (RestartSurgeGracePeriod cfg)))
               else ret (Inr ctrl_Result))
            else if \<not> IsStableForRestart ro then do {
              Eventf K (Object wl) EventTypeWarning ''RestartSurgeSkipped''
                (''Rollout phase is not a pending restart '' @ em_dash @ '' skipping restart-surge'') [];
              ret (Inr (requeue_after (RequeueInterval cfg)))
            }
            else checked id (FindMatchingPDB K (Namespace meta) (GetPodSelector K wl)) (\<lambda>hasPDB.
              if \<not> hasPDB then ret (Inr ctrl_Result) else restart_surge K cfg now ro))
         }))"

definition handleRestartScaleUp ::
  "'s platform \<Rightarrow> Config \<Rightarrow> DrainableWorkload \<Rightarrow> ('s, error + Result) api_prog" where
  "handleRestartScaleUp K cfg wl =
     (case getOriginalReplicas (wl_annotations wl) of
        Inl _ \<Rightarrow> abortRestartSurge K wl
      | Inr original \<Rightarrow>
          if anno_get (wl_annotations wl) AnnotationHPAName \<noteq> '''' \<or> original <s GetReplicas wl
          then ret (Inr (requeue_after (RequeueInterval cfg)))
          else do {
            Eventf K (Object wl) EventTypeWarning ''CompetingController''
              ''Replicas were reset externally during restart-surge'' [];
            checked (wrap_error ''re-apply restart-surge scale-up: %w'' []) (Patch K (SetReplicas (original + 1) wl))
              (\<lambda>_. ret (Inr (requeue_after (RequeueInterval cfg))))
          })"

fun count_ready :: "Pod list \<Rightarrow> nat" where
  "count_ready [] = 0"
| "count_ready (p # pods) =
     (if isPodTerminating p then count_ready pods
      else if isPodReady p then Suc (count_ready pods) else count_ready pods)"

definition restartWaitReady_check ::
  "'s platform \<Rightarrow> Config \<Rightarrow> DrainableWorkload \<Rightarrow> ('s, error + Result) api_prog" where
  "restartWaitReady_check K cfg wl =
     checked id (listMatchingPods K (Namespace (GetObjectMeta wl)) (GetPodSelector K wl)) (\<lambda>pods.
       if 2 \<le> count_ready pods then do {
         Eventf K (Object wl) EventTypeNormal ''RestartSurgeReady''
           ''Surge replica ready; Argo PodRestarter can now evict the stale pod'' [];
         (case annotate AnnotationRestartSurgeState DrainStateReady wl of Inl e \<Rightarrow> ret (Inl e) | Inr wl \<Rightarrow>
          checked (wrap_error ''patch rollout to ready: %w'' []) (Patch K wl)
            (\<lambda>_. ret (Inr (requeue_after (RequeueInterval cfg)))))
       }
       else ret (Inr (requeue_after (RequeueInterval cfg))))"

definition handleRestartWaitReady ::
  "'s platform \<Rightarrow> Config \<Rightarrow> DrainableWorkload \<Rightarrow> ('s, error + Result) api_prog" where
  "handleRestartWaitReady K cfg wl =
     (if anno_get (wl_annotations wl) AnnotationHPAName = '''' then
        (case getOriginalReplicas (wl_annotations wl) of
           Inl _ \<Rightarrow> abortRestartSurge K wl
         | Inr original \<Rightarrow>
             if GetReplicas wl \<le>s original then
               checked (wrap_error ''re-apply restart-surge scale-up: %w'' []) (Patch K (SetReplicas (original + 1) wl))
                 (\<lambda>_. ret (Inr (requeue_after (RequeueInterval cfg))))
             else restartWaitReady_check K cfg wl)
      else restartWaitReady_check K cfg wl)"

text \<open>The scale-down at the end of \<open>handleRestartWaitForArgo\<close>.\<close>

definition restart_finish ::
  "'s platform \<Rightarrow> Config \<Rightarrow> DrainableWorkload \<Rightarrow> ('s, error + Result) api_prog" where
  "restart_finish K cfg wl =
     checked (wrap_error ''restore HPA after restart: %w'' []) (restart_restoreHPA K (GetObjectMeta wl)) (\<lambda>_.
       case getOriginalReplicas (wl_annotations wl) of
         Inl _ \<Rightarrow> abortRestartSurge K wl
       | Inr original \<Rightarrow>
           let wl = (if anno_get (wl_annotations wl) AnnotationHPAName = '''' then SetReplicas original wl else wl)
           in case annotate AnnotationRestartSurgeState DrainStateDraining wl of Inl e \<Rightarrow> ret (Inl e) | Inr wl \<Rightarrow>
              checked (wrap_error ''patch rollout for restart-surge scale-down: %w'' []) (Patch K wl) (\<lambda>obj. do {
                Eventf K obj EventTypeNormal ''RestartSurgeScaleDown'' ''Restart completed, scaled down to %d''
                  [ArgD (sint original)];
                ret (Inr (requeue_after (RequeueInterval cfg)))
              }))"

definition handleRestartWaitForArgo ::
  "'s platform \<Rightarrow> Config \<Rightarrow> Rollout \<Rightarrow> ('s, error + Result) api_prog" where
  "handleRestartWaitForArgo K cfg ro =
     (let wl = RolloutWorkload ro;
          statusCaughtUp = (ro_RestartAt ro \<noteq> None \<and> metav1_Time_Equal (ro_RestartedAt ro) (ro_RestartAt ro))
      in if \<not> statusCaughtUp then
           checked id (listMatchingPods K (Namespace (GetObjectMeta wl)) (GetPodSelector K wl)) (\<lambda>pods.
             if \<not> restartCompletedByArgo ro pods then ret (Inr (requeue_after (RequeueInterval cfg)))
             else restart_finish K cfg wl)
         else restart_finish K cfg wl)"

definition handleRestartScaleDown ::
  "'s platform \<Rightarrow> Config \<Rightarrow> DrainableWorkload \<Rightarrow> ('s, error + Result) api_prog" where
  "handleRestartScaleDown K cfg wl =
     (case getOriginalReplicas (wl_annotations wl) of
        Inl _ \<Rightarrow> abortRestartSurge K wl
      | Inr original \<Rightarrow>
          let wl = (if anno_get (wl_annotations wl) AnnotationHPAName = '''' \<and> GetReplicas wl \<noteq> original
                    then SetReplicas original wl else wl)
          in case annotate AnnotationRestartSurgeState DrainStateDone wl of Inl e \<Rightarrow> ret (Inl e) | Inr wl \<Rightarrow>
             checked (wrap_error ''patch rollout to done: %w'' []) (Patch K wl)
               (\<lambda>_. ret (Inr (requeue_after (RequeueInterval cfg)))))"

definition handleRestartCleanup :: "'s platform \<Rightarrow> DrainableWorkload \<Rightarrow> ('s, error + Result) api_prog" where
  "handleRestartCleanup K wl =
     (let wl = SetAnnotations (clearRestartSurgeAnnotations (wl_annotations wl)) wl
      in checked (wrap_error ''patch rollout for restart-surge cleanup: %w'' []) (Patch K wl) (\<lambda>obj. do {
           Eventf K obj EventTypeNormal ''RestartSurgeComplete'' ''Restart-surge operation completed successfully'' [];
           ret (Inr ctrl_Result)
         }))"

section \<open>Reconciling one Rollout\<close>

definition restart_overrun ::
  "'s platform \<Rightarrow> Config \<Rightarrow> ('s, Time) state option \<Rightarrow> DrainableWorkload \<Rightarrow> ('s, (error + Result) option) api_prog" where
  "restart_overrun K cfg now wl =
     (case parseRestartSurgeStart (wl_annotations wl) of
        None \<Rightarrow> ret None
      | Some start \<Rightarrow> do {
          t \<leftarrow> timeNow K now;
          let elapsed = time_Sub t start;
          (if 3 * RestartSurgeTimeout cfg <s elapsed then do {
             Eventf K (Object wl) EventTypeWarning ''RestartSurgeStale'' ''Force aborting stale restart-surge operation'' [];
             r \<leftarrow> abortRestartSurge K wl;
             ret (Some r)
           }
           else if RestartSurgeTimeout cfg <s elapsed then do {
             Eventf K (Object wl) EventTypeWarning ''RestartSurgeTimeout'' ''Restart-surge operation timed out'' [];
             r \<leftarrow> abortRestartSurge K wl;
             ret (Some r)
           }
           else ret None)
        })"

definition restart_dispatch ::
  "'s platform \<Rightarrow> Config \<Rightarrow> ('s, Time) state option \<Rightarrow> Rollout \<Rightarrow> DrainState \<Rightarrow> ('s, error + Result) api_prog" where
  "restart_dispatch K cfg now ro currentState =
     (let wl = RolloutWorkload ro
      in if currentState = DrainStateNone then handleRestartPending K cfg now ro
         else if currentState = DrainStatePending then handleRestartScaleUp K cfg wl
         else if currentState = DrainStateScaledUp then handleRestartWaitReady K cfg wl
         else if currentState = DrainStateReady then handleRestartWaitForArgo K cfg ro
         else if currentState = DrainStateDraining then handleRestartScaleDown K cfg wl
         else if currentState = DrainStateDone then handleRestartCleanup K wl
         else abortRestartSurge K wl)"

definition restart_reconcileWorkload ::
  "'s platform \<Rightarrow> Config \<Rightarrow> ('s, Time) state option \<Rightarrow> Rollout \<Rightarrow> ('s, error + Result) api_prog" where
  "restart_reconcileWorkload K cfg now ro = do {
     let wl = RolloutWorkload ro;
     let annotations = wl_annotations wl;
     let currentState = anno_get annotations AnnotationRestartSurgeState;
     let isActive = (currentState \<noteq> DrainStateNone \<and> currentState \<noteq> DrainStateDone);
     overrun \<leftarrow> (if isActive then restart_overrun K cfg now wl else ret None);
     (case overrun of
        Some r \<Rightarrow> ret r
      | None \<Rightarrow>
          if anno_get annotations AnnotationDrainState \<noteq> '''' then
            (if isActive then yieldToDrain K wl else ret (Inr ctrl_Result))
          else restart_dispatch K cfg now ro currentState)
   }"

definition restart_Reconcile ::
  "'s platform \<Rightarrow> Config \<Rightarrow> ('s, Time) state option \<Rightarrow> Request \<Rightarrow> ('s, error + Result) api_prog" where
  "restart_Reconcile K cfg now req = do {
     got \<leftarrow> call (GetRollout (req_Namespace req) (req_Name req)) (pf_GetRollout K (req_Namespace req) (req_Name req));
     (case got of
        Inl e \<Rightarrow> if IsNotFound e then ret (Inr ctrl_Result) else ret (Inl (Api e))
      | Inr ro \<Rightarrow> restart_reconcileWorkload K cfg now ro)
   }"

section \<open>Orphan recovery\<close>

definition argoIdle :: "Rollout \<Rightarrow> bool" where
  "argoIdle ro \<longleftrightarrow> ro_RestartAt ro = None \<or>
     (ro_RestartedAt ro \<noteq> None \<and> metav1_Time_Equal (ro_RestartedAt ro) (ro_RestartAt ro))"

fun restart_abort_orphans :: "'s platform \<Rightarrow> Rollout list \<Rightarrow> ('s, error + unit) api_prog" where
  "restart_abort_orphans K [] = ret (Inr ())"
| "restart_abort_orphans K (ro # ros) =
     (if anno_get (Annotations (ro_ObjectMeta ro)) AnnotationRestartSurgeState = DrainStateNone
      then restart_abort_orphans K ros
      else if \<not> argoIdle ro then restart_abort_orphans K ros
      else do {
        r \<leftarrow> abortRestartSurge K (RolloutWorkload ro);
        (case r of
           Inl e \<Rightarrow> if is_panic e then ret (Inl e) else restart_abort_orphans K ros
         | Inr _ \<Rightarrow> restart_abort_orphans K ros)
      })"

definition restart_RecoverOrphans :: "'s platform \<Rightarrow> ('s, error + unit) api_prog" where
  "restart_RecoverOrphans K =
     checked (wrap_error ''list rollouts: %w'' []) (client_call ListRollouts (pf_ListRollouts K))
       (\<lambda>ros. restart_abort_orphans K ros)"

section \<open>Event filter and watches\<close>

text \<open>The closure \<open>relevant\<close>; on any other kind of object than a Rollout the type assertion fails.\<close>

definition relevant :: "string \<Rightarrow> client_Object \<Rightarrow> bool" where
  "relevant enabledAnnotation obj =
     (let ann = Annotations (object_meta obj)
      in if anno_get ann AnnotationRestartSurgeState \<noteq> '''' then True
         else if anno_get ann enabledAnnotation \<noteq> ''true'' then False
         else (case obj of
                 DeploymentObject _ \<Rightarrow> False
               | RolloutObject ro \<Rightarrow>
                   if ro_RestartAt ro = None then False
                   else \<not> metav1_Time_Equal (ro_RestartedAt ro) (ro_RestartAt ro)))"

text \<open>The events of a watch; an update carries the old and the new object.\<close>

datatype watch_event =
    CreateEvent client_Object
  | UpdateEvent client_Object client_Object
  | DeleteEvent client_Object
  | GenericEvent client_Object

fun rolloutRelevantPredicate :: "string \<Rightarrow> watch_event \<Rightarrow> bool" where
  "rolloutRelevantPredicate enabledAnnotation (CreateEvent obj) = relevant enabledAnnotation obj"
| "rolloutRelevantPredicate enabledAnnotation (UpdateEvent _ objectNew) = relevant enabledAnnotation objectNew"
| "rolloutRelevantPredicate enabledAnnotation (DeleteEvent obj) = relevant enabledAnnotation obj"
| "rolloutRelevantPredicate enabledAnnotation (GenericEvent obj) = relevant enabledAnnotation obj"

definition mapPodToRollout :: "'s platform \<Rightarrow> Pod \<Rightarrow> ('s, Request list) api_prog" where
  "mapPodToRollout K pod = do {
     r \<leftarrow> ResolveWorkloadFromPod K pod;
     (case r of
        Inr (Some (RolloutWorkload ro)) \<Rightarrow>
          ret [\<lparr>req_Namespace = Namespace (ro_ObjectMeta ro), req_Name = Name (ro_ObjectMeta ro)\<rparr>]
      | _ \<Rightarrow> ret [])
   }"

section \<open>Shared helper\<close>

lemma restart_restoreHPA_eq: "restart_restoreHPA = restoreHPA"
  by (intro ext) (simp add: restart_restoreHPA_def restoreHPA_def)

end
