(* ===== verification/Runs.thy ===== *)
theory Runs
  imports SurgeWrites
begin

text \<open>
  Runs of a reconciler on one workload: successive reconciles, each on the object the one before has
  patched and in a world of its own, so that other actors may have done anything in between but change
  that object. The locale \<open>staged_run\<close> is the contract of a reconciler that advances: from each stage, a
  reconcile all of whose calls are answered favourably leads to the next. It concludes where a run
  gets; both controllers interpret it.
\<close>

section \<open>What a trace patches\<close>

fun patched_objects :: "api_call list \<Rightarrow> client_Object list" where
  "patched_objects [] = []"
| "patched_objects (PatchObject obj _ _ # l) = obj # patched_objects l"
| "patched_objects (_ # l) = patched_objects l"

fun hpa_minima :: "api_call list \<Rightarrow> (string \<times> int32) list" where
  "hpa_minima [] = []"
| "hpa_minima (PatchHPA _ n k _ # l) = (n, k) # hpa_minima l"
| "hpa_minima (_ # l) = hpa_minima l"

fun workload_of :: "client_Object \<Rightarrow> DrainableWorkload" where
  "workload_of (RolloutObject ro) = RolloutWorkload ro"
| "workload_of (DeploymentObject dep) = DeploymentWorkload dep"

definition patched_last :: "DrainableWorkload \<Rightarrow> api_call list \<Rightarrow> DrainableWorkload" where
  "patched_last wl l = (case patched_objects l of [] \<Rightarrow> wl | objs \<Rightarrow> workload_of (last objs))"

lemma patched_objects_append [simp]: "patched_objects (l @ l') = patched_objects l @ patched_objects l'"
  by (induction l rule: patched_objects.induct) simp_all

lemma hpa_minima_append [simp]: "hpa_minima (l @ l') = hpa_minima l @ hpa_minima l'"
  by (induction l rule: hpa_minima.induct) simp_all

lemma workload_of_Object [simp]: "workload_of (Object wl) = wl"
  by (cases wl) simp_all

lemma patched_last_one: "patched_objects l = [Object wl'] \<Longrightarrow> patched_last wl l = wl'"
  by (simp add: patched_last_def)

text \<open>One workload patch, and the given autoscaler minima.\<close>

abbreviation writes_exactly :: "DrainableWorkload \<Rightarrow> (string \<times> int32) list \<Rightarrow> api_call list \<Rightarrow> bool" where
  "writes_exactly wl' minima l \<equiv> patched_objects l = [Object wl'] \<and> hpa_minima l = minima"

section \<open>Runs\<close>

type_synonym 's reconciler = "DrainableWorkload \<Rightarrow> ('s, error + Result) api_prog"
type_synonym 's worlds = "('s, api_call) world list"

definition calls_of :: "('s, 'a) api_prog \<Rightarrow> ('s, api_call) world \<Rightarrow> api_call list" where
  "calls_of m w = drop (length (trace w)) (trace (snd (run_state m w)))"

fun run_stages :: "'s reconciler \<Rightarrow> DrainableWorkload \<Rightarrow> 's worlds \<Rightarrow> DrainableWorkload list" where
  "run_stages rec wl [] = []"
| "run_stages rec wl (w # ws) =
     (let wl' = patched_last wl (calls_of (rec wl) w) in wl' # run_stages rec wl' ws)"

fun run_calls :: "'s reconciler \<Rightarrow> DrainableWorkload \<Rightarrow> 's worlds \<Rightarrow> api_call list" where
  "run_calls rec wl [] = []"
| "run_calls rec wl (w # ws) =
     (let l = calls_of (rec wl) w in l @ run_calls rec (patched_last wl l) ws)"

text \<open>
  A run in which a reconcile either has all its calls answered favourably for the object it is made
  for, or finds that it has nothing to write; and the number of those of the first kind.
\<close>

fun steady_run ::
  "(DrainableWorkload \<Rightarrow> api_call \<Rightarrow> bool) \<Rightarrow> 's reconciler \<Rightarrow> DrainableWorkload \<Rightarrow> 's worlds \<Rightarrow> bool" where
  "steady_run good rec wl [] \<longleftrightarrow> True"
| "steady_run good rec wl (w # ws) \<longleftrightarrow>
     (let l = calls_of (rec wl) w
      in (list_all (good wl) l \<or> writes l = []) \<and> steady_run good rec (patched_last wl l) ws)"

fun good_rounds ::
  "(DrainableWorkload \<Rightarrow> api_call \<Rightarrow> bool) \<Rightarrow> 's reconciler \<Rightarrow> DrainableWorkload \<Rightarrow> 's worlds \<Rightarrow> nat" where
  "good_rounds good rec wl [] = 0"
| "good_rounds good rec wl (w # ws) =
     (let l = calls_of (rec wl) w
      in (if list_all (good wl) l then 1 else 0) + good_rounds good rec (patched_last wl l) ws)"

lemma writes_Nil_patched: "writes l = [] \<Longrightarrow> patched_objects l = []" "writes l = [] \<Longrightarrow> hpa_minima l = []"
  by (induction l rule: patched_objects.induct) (auto split: if_splits)

lemma patched_last_quiet [simp]: "writes l = [] \<Longrightarrow> patched_last wl l = wl"
  by (simp add: patched_last_def writes_Nil_patched)

lemma emits_calls: "emits m Q \<Longrightarrow> Q (fst (run_state m w)) (calls_of m w)"
  unfolding emits_def calls_of_def by (metis append_eq_conv_conj)

text \<open>The result and the calls of some run of a program.\<close>

definition ran :: "('s, 'a) api_prog \<Rightarrow> 'a \<Rightarrow> api_call list \<Rightarrow> bool" where
  "ran m r l \<longleftrightarrow> (\<exists>w. r = fst (run_state m w) \<and> l = calls_of m w)"

lemma ranD: "emits m Q \<Longrightarrow> ran m r l \<Longrightarrow> Q r l"
  using emits_calls by (auto simp: ran_def)

lemma emits_ran: "emits m Q \<Longrightarrow> emits m (\<lambda>r l. Q r l \<and> ran m r l)"
  unfolding emits_def ran_def calls_of_def by (metis append_eq_conv_conj)

lemma progress_calls:
  assumes "emits m (\<lambda>r l. list_all g l \<longrightarrow> writes_exactly wl' minima l \<and> \<not> isl r)" "list_all g (calls_of m w)"
  shows "patched_last wl (calls_of m w) = wl'"
  using emits_calls [OF assms(1), of w] assms(2) by (simp add: patched_last_one)

locale staged_run =
  fixes good :: "DrainableWorkload \<Rightarrow> api_call \<Rightarrow> bool"
    and rec :: "'s reconciler"
    and stage :: "nat \<Rightarrow> DrainableWorkload \<Rightarrow> api_call list \<Rightarrow> bool"
    and final :: nat
  assumes advance: "stage i wl l0 \<Longrightarrow> i < final \<Longrightarrow>
    emits (rec wl) (\<lambda>r l. list_all (good wl) l \<longrightarrow> stage (Suc i) (patched_last wl l) (l0 @ l))"
    and idle: "stage i wl l0 \<Longrightarrow> writes l = [] \<Longrightarrow> stage i wl (l0 @ l)"
begin

lemma advance_calls:
  "stage i wl l0 \<Longrightarrow> i < final \<Longrightarrow> list_all (good wl) (calls_of (rec wl) w) \<Longrightarrow>
     stage (Suc i) (patched_last wl (calls_of (rec wl) w)) (l0 @ calls_of (rec wl) w)"
  using emits_calls [OF advance [of i wl l0]] by blast

text \<open>
  Each favourable reconcile gets one stage further, the others leave the object as it is; the calls of
  the run accumulate. If each stage has its own name, the names that appear are those of the stages in order.
\<close>

lemma run_reaches:
  assumes "stage i wl l0" "i + good_rounds good rec wl ws \<le> final" "steady_run good rec wl ws"
  shows "stage (i + good_rounds good rec wl ws) (last (wl # run_stages rec wl ws)) (l0 @ run_calls rec wl ws)"
  using assms
proof (induction ws arbitrary: i wl l0)
  case (Cons w ws)
  let ?l = "calls_of (rec wl) w"
  show ?case
  proof (cases "list_all (good wl) ?l")
    case True
    with Cons.prems have "stage (Suc i) (patched_last wl ?l) (l0 @ ?l)" by (intro advance_calls) (simp_all add: Let_def)
    from Cons.IH [OF this] Cons.prems True show ?thesis by (simp add: Let_def)
  next
    case False
    with Cons.prems have "writes ?l = []" by (simp add: Let_def)
    from Cons.IH [OF idle [OF Cons.prems(1) this]] this Cons.prems False show ?thesis by (simp add: Let_def)
  qed
qed simp

lemma run_names:
  assumes "stage i wl l0" "i + good_rounds good rec wl ws \<le> final" "steady_run good rec wl ws"
    and name: "\<And>i wl l. stage i wl l \<Longrightarrow> i \<le> final \<Longrightarrow> name wl = names ! i"
    and apart: "\<And>i. i < final \<Longrightarrow> names ! i \<noteq> names ! Suc i"
  shows "remdups_adj (map name (wl # run_stages rec wl ws)) = map ((!) names) [i..<Suc (i + good_rounds good rec wl ws)]"
  using assms(1-3)
proof (induction ws arbitrary: i wl l0)
  case Nil
  with name show ?case by simp
next
  case (Cons w ws)
  let ?l = "calls_of (rec wl) w"
  let ?wl = "patched_last wl ?l"
  show ?case
  proof (cases "list_all (good wl) ?l")
    case True
    with Cons.prems have le: "Suc i \<le> final" and step: "stage (Suc i) ?wl (l0 @ ?l)"
      by (auto simp: Let_def intro: advance_calls)
    from name [OF Cons.prems(1)] name [OF step] apart le have "name wl = names ! i" "name wl \<noteq> name ?wl" by auto
    moreover have "[i..<Suc (i + good_rounds good rec wl (w # ws))] = i # [Suc i..<Suc (Suc i + good_rounds good rec ?wl ws)]"
      using True by (simp add: Let_def upt_conv_Cons)
    ultimately show ?thesis using Cons.IH [OF step] Cons.prems True by (simp add: Let_def)
  next
    case False
    with Cons.prems have "writes ?l = []" by (simp add: Let_def)
    from Cons.IH [OF idle [OF Cons.prems(1) this]] this Cons.prems False show ?thesis by (simp add: Let_def)
  qed
qed

end

section \<open>The stages of a surge\<close>

text \<open>The autoscaler of a workload, as a trace has read it, and one that leaves room for the surge.\<close>

definition hpa_read :: "DrainableWorkload \<Rightarrow> HorizontalPodAutoscaler \<Rightarrow> api_call list \<Rightarrow> bool" where
  "hpa_read wl hpa l \<longleftrightarrow> (\<exists>hpas. ListHPAs (Namespace (GetObjectMeta wl)) (Inr hpas) \<in> set l \<and>
     find_hpa (Name (GetObjectMeta wl)) (GetObjectKind wl) hpas = Some hpa)"

definition hpa_fits :: "HorizontalPodAutoscaler \<Rightarrow> bool" where
  "hpa_fits hpa \<longleftrightarrow> Name (hpa_ObjectMeta hpa) \<noteq> '''' \<and> 1 < sint (hpa_MaxReplicas hpa) \<and> \<not> IsHPAAtMinReplicas hpa 2"

lemma hpa_readI:
  "ListHPAs (Namespace (GetObjectMeta wl)) (Inr hpas) \<in> set l \<Longrightarrow>
     find_hpa (Name (GetObjectMeta wl)) (GetObjectKind wl) hpas = Some hpa \<Longrightarrow> hpa_read wl hpa l"
  by (auto simp: hpa_read_def)

lemma hpa_read_append: "hpa_read wl hpa (l @ l') \<longleftrightarrow> hpa_read wl hpa l \<or> hpa_read wl hpa l'"
  by (auto simp: hpa_read_def)

text \<open>
  What is known of the object in state \<open>s\<close> of an operation begun on \<open>wl0\<close>: \<open>h\<close> is the autoscaler on
  record, with the minimum \<open>m\<close>, and \<open>n\<close> the replica count.
\<close>

definition at_stage ::
  "string \<Rightarrow> string list \<Rightarrow> DrainableWorkload \<Rightarrow> string \<Rightarrow> int \<Rightarrow> DrainState \<Rightarrow> int32 \<Rightarrow> DrainableWorkload \<Rightarrow> bool" where
  "at_stage key owned wl0 h m s n wl \<longleftrightarrow>
     anno_get (wl_annotations wl) key = s \<and> getOriginalReplicas (wl_annotations wl) = Inr 1 \<and>
     anno_get (wl_annotations wl) AnnotationHPAName = h \<and>
     (h \<noteq> '''' \<longrightarrow> strconv_Atoi (anno_get (wl_annotations wl) AnnotationHPAOriginalMinReplicas) = Inr m) \<and>
     GetReplicas wl = n \<and> keeps owned (wl_annotations wl0) (wl_annotations wl)"

text \<open>What has been sent to the autoscaler: while the surge is up, and once it is down again.\<close>

definition raised :: "DrainableWorkload \<Rightarrow> string \<Rightarrow> int \<Rightarrow> api_call list \<Rightarrow> bool" where
  "raised wl0 h m l \<longleftrightarrow> h = '''' \<and> hpa_minima l = [] \<or>
     (\<exists>hpa. hpa_read wl0 hpa l \<and> hpa_fits hpa \<and> h = Name (hpa_ObjectMeta hpa) \<and>
        m = sint (HPAMinReplicasOrDefault hpa) \<and> hpa_minima l = [(h, 2)])"

definition settled :: "DrainableWorkload \<Rightarrow> api_call list \<Rightarrow> bool" where
  "settled wl0 l \<longleftrightarrow> hpa_minima l = [] \<or>
     (\<exists>hpa. hpa_read wl0 hpa l \<and>
        hpa_minima l = [(Name (hpa_ObjectMeta hpa), 2), (Name (hpa_ObjectMeta hpa), HPAMinReplicasOrDefault hpa)])"

lemma raised_append: "raised wl0 h m l \<Longrightarrow> hpa_minima l' = [] \<Longrightarrow> raised wl0 h m (l @ l')"
  by (auto simp: raised_def hpa_read_append)

lemma settled_append: "settled wl0 l \<Longrightarrow> hpa_minima l' = [] \<Longrightarrow> settled wl0 (l @ l')"
  by (auto simp: settled_def hpa_read_append)

lemma raised_settled:
  "raised wl0 h m l \<Longrightarrow> hpa_minima l' = (if h = '''' then [] else [(h, word_of_int m)]) \<Longrightarrow> settled wl0 (l @ l')"
  by (auto simp: raised_def settled_def hpa_read_append hpa_fits_def)

text \<open>
  The five steps from the object \<open>wl0\<close>, for which \<open>init\<close> holds, back to it; \<open>mid\<close> holds of every object
  in between. The second replica is asked for on the workload (\<open>n = 2\<close>) or through the autoscaler \<open>h\<close>.
\<close>

definition surge_stage ::
  "string \<Rightarrow> string list \<Rightarrow> (DrainableWorkload \<Rightarrow> bool) \<Rightarrow> (DrainableWorkload \<Rightarrow> bool) \<Rightarrow> DrainableWorkload \<Rightarrow>
   nat \<Rightarrow> DrainableWorkload \<Rightarrow> api_call list \<Rightarrow> bool" where
  "surge_stage key owned init mid wl0 i wl l \<longleftrightarrow>
     (if i = 0 then wl = wl0 \<and> hpa_minima l = [] \<and> init wl0
      else if i \<le> 2 then mid wl \<and> (\<exists>h m n. (h \<noteq> '''' \<and> n = 1 \<or> h = '''' \<and> n = 2) \<and> raised wl0 h m l \<and>
        at_stage key owned wl0 h m (if i = 1 then DrainStateScaledUp else DrainStateReady) n wl)
      else if i \<le> 4 then mid wl \<and> settled wl0 l \<and>
        (\<exists>h m. at_stage key owned wl0 h m (if i = 3 then DrainStateDraining else DrainStateDone) 1 wl)
      else settled wl0 l \<and> GetReplicas wl = 1 \<and> cleared owned (wl_annotations wl0) (wl_annotations wl))"

text \<open>
  The object a start writes and the autoscaler minima it sets, given what it has read; \<open>entry t\<close>
  is the bookkeeping of an operation started at \<open>t\<close>.
\<close>

inductive starts ::
  "(Time \<Rightarrow> annotations) \<Rightarrow> DrainableWorkload \<Rightarrow> api_call list \<Rightarrow> DrainableWorkload \<Rightarrow> (string \<times> int32) list \<Rightarrow> bool"
  for entry wl l where
  scaled: "ReadClock t \<in> set l \<Longrightarrow> wl' = SetReplicas (GetReplicas wl + 1) (SetAnnotations (Some (entry t)) wl) \<Longrightarrow>
    starts entry wl l wl' []"
| autoscaled: "ReadClock t \<in> set l \<Longrightarrow> hpa_read wl hpa l \<Longrightarrow> hpa_fits hpa \<Longrightarrow>
    wl' = SetAnnotations (Some ((entry t)(AnnotationHPAName \<mapsto> Name (hpa_ObjectMeta hpa),
      AnnotationHPAOriginalMinReplicas \<mapsto> strconv_Itoa (sint (HPAMinReplicasOrDefault hpa))))) wl \<Longrightarrow>
    starts entry wl l wl' [(Name (hpa_ObjectMeta hpa), 2)]"

lemma starts_append: "starts entry wl l wl' minima \<Longrightarrow> starts entry wl (pre @ l) wl' minima"
  by (auto elim!: starts.cases intro: starts.intros simp: hpa_read_append)

lemma starts_Cons: "starts entry wl l wl' minima \<Longrightarrow> starts entry wl (c # l) wl' minima"
  using starts_append [where pre = "[c]"] by simp

context surge_writer
begin

lemma at_stage_SetReplicas: "at_stage key owned wl0 h m s n wl \<Longrightarrow> at_stage key owned wl0 h m s k (SetReplicas k wl)"
  by (simp add: at_stage_def)

lemma at_stage_to_state: "at_stage key owned wl0 h m s n wl \<Longrightarrow> at_stage key owned wl0 h m s' n (to_state key s' wl)"
  using key_owned by (auto simp: at_stage_def to_state_def keeps_def anno_lookup_make)

lemma stage_started:
  assumes "starts entry wl l wl' (hpa_minima l)" "patched_objects l = [Object wl']" "GetReplicas wl = 1"
    and "anno_get (wl_annotations wl) AnnotationHPAName = ''''" "AnnotationHPAOriginalMinReplicas \<in> set owned"
    and entry: "\<And>t. anno_get (Some (entry t)) key = DrainStateScaledUp"
      "\<And>t. getOriginalReplicas (Some (entry t)) = Inr 1"
      "\<And>t. anno_get (Some (entry t)) AnnotationHPAName = anno_get (wl_annotations wl) AnnotationHPAName"
      "\<And>t. keeps owned (wl_annotations wl) (Some (entry t))"
    and "mid wl'" "hpa_minima l0 = []"
  shows "surge_stage key owned init mid wl 1 (patched_last wl l) (l0 @ l)"
  using assms(1)
proof cases
  case (scaled t)
  then have "at_stage key owned wl '''' 0 DrainStateScaledUp 2 wl'"
    using assms(3,4) entry by (simp add: at_stage_def)
  moreover have "raised wl '''' 0 (l0 @ l)" using scaled \<open>hpa_minima l0 = []\<close> by (simp add: raised_def)
  ultimately show ?thesis using assms(10) unfolding patched_last_one [OF assms(2)] by (auto simp: surge_stage_def)
next
  case (autoscaled t hpa)
  let ?h = "Name (hpa_ObjectMeta hpa)" and ?m = "sint (HPAMinReplicasOrDefault hpa)"
  have "at_stage key owned wl ?h ?m DrainStateScaledUp 1 wl'"
    using assms(3,5) entry autoscaled bookkeeping_owned(2) by (auto simp: at_stage_def keeps_def)
  moreover have "raised wl ?h ?m (l0 @ l)" "?h \<noteq> ''''"
    using autoscaled \<open>hpa_minima l0 = []\<close> by (auto simp: raised_def hpa_fits_def hpa_read_append)
  ultimately show ?thesis using assms(10) unfolding patched_last_one [OF assms(2)] by (auto simp: surge_stage_def)
qed

lemma stage_up:
  assumes "surge_stage key owned init mid wl0 i wl l0" "i = 1" "writes_exactly wl' [] l" "wl' = to_state key DrainStateReady wl" "mid wl'"
  shows "surge_stage key owned init mid wl0 (Suc i) (patched_last wl l) (l0 @ l)"
proof -
  from assms(1,2) obtain h m n where
    s: "h \<noteq> '''' \<and> n = 1 \<or> h = '''' \<and> n = 2" "raised wl0 h m l0" "at_stage key owned wl0 h m DrainStateScaledUp n wl"
    by (auto simp: surge_stage_def)
  have "at_stage key owned wl0 h m DrainStateReady n wl'"
    unfolding assms(4) by (rule at_stage_to_state [OF s(3)])
  moreover have "raised wl0 h m (l0 @ l)" using assms(3) by (intro raised_append [OF s(2)]) simp
  ultimately show ?thesis using s(1) assms(2,3,5) by (auto simp: surge_stage_def patched_last_one)
qed

lemma stage_down:
  assumes "surge_stage key owned init mid wl0 i wl l0" "i = 2" "h = anno_get (wl_annotations wl) AnnotationHPAName"
    "strconv_Atoi (anno_get (wl_annotations wl) AnnotationHPAOriginalMinReplicas) = Inr m \<or> h = ''''"
    "writes_exactly wl' (if h = '''' then [] else [(h, word_of_int m)]) l"
    "wl' = to_state key DrainStateDraining (if h = '''' then SetReplicas 1 wl else wl)" "mid wl'"
  shows "surge_stage key owned init mid wl0 (Suc i) (patched_last wl l) (l0 @ l)"
proof -
  from assms(1,2) obtain h' m' n where
    s: "h' \<noteq> '''' \<and> n = 1 \<or> h' = '''' \<and> n = 2" "raised wl0 h' m' l0" "at_stage key owned wl0 h' m' DrainStateReady n wl"
    by (auto simp: surge_stage_def)
  then have h: "h' = h" "h \<noteq> '''' \<Longrightarrow> m' = m" using assms(3,4) by (auto simp: at_stage_def)
  have "at_stage key owned wl0 h' m' DrainStateDraining 1 wl'"
    using s at_stage_to_state [OF s(3)] at_stage_to_state [OF at_stage_SetReplicas [OF s(3)]] h(1) assms(6) by auto
  moreover have "settled wl0 (l0 @ l)" using raised_settled [OF s(2), of l] assms(5) h by auto
  ultimately show ?thesis using assms(2,5,7) by (auto simp: surge_stage_def patched_last_one)
qed

lemma stage_finish:
  assumes "surge_stage key owned init mid wl0 i wl l0" "i = 3" "writes_exactly wl' [] l" "wl' = to_state key DrainStateDone wl" "mid wl'"
  shows "surge_stage key owned init mid wl0 (Suc i) (patched_last wl l) (l0 @ l)"
  using assms by (auto simp: surge_stage_def patched_last_one settled_append intro: at_stage_to_state)

lemma stage_clear:
  assumes "surge_stage key owned init mid wl0 i wl l0" "i = 4" "writes_exactly wl' [] l"
    "wl' = SetAnnotations (clear (wl_annotations wl)) wl"
  shows "surge_stage key owned init mid wl0 (Suc i) (patched_last wl l) (l0 @ l)"
  using assms
  by (auto simp: surge_stage_def patched_last_one settled_append at_stage_def keeps_def cleared_def lookup_clear)

end

text \<open>A call that writes nothing changes no stage.\<close>

lemma surge_stage_idle:
  assumes "surge_stage key owned init mid wl0 i wl l0" "writes l = []"
  shows "surge_stage key owned init mid wl0 i wl (l0 @ l)"
proof -
  note hm = writes_Nil_patched(2) [OF assms(2)]
  have raised: "(\<exists>h m n. P h m n \<and> raised wl0 h m l0 \<and> Q h m n) \<Longrightarrow> (\<exists>h m n. P h m n \<and> raised wl0 h m (l0 @ l) \<and> Q h m n)" for P Q
    using raised_append [OF _ hm] by blast
  from assms(1) show ?thesis
    unfolding surge_stage_def by (simp add: hm raised settled_append [OF _ hm] split: if_splits)
qed

text \<open>The state names of the stages.\<close>

abbreviation stage_names :: "DrainState list" where
  "stage_names \<equiv> ['''', DrainStateScaledUp, DrainStateReady, DrainStateDraining, DrainStateDone, '''']"

lemma surge_stage_name:
  assumes "surge_stage key owned init mid wl0 i wl l" "i \<le> 5" "key \<in> set owned"
    "\<And>wl. init wl \<Longrightarrow> anno_get (wl_annotations wl) key = ''''"
  shows "anno_get (wl_annotations wl) key = stage_names ! i"
  using assms by (auto simp: surge_stage_def at_stage_def cleared_def anno_get_def numeral_eq_Suc le_Suc_eq split: if_splits)

lemma stage_names_apart: "i < 5 \<Longrightarrow> stage_names ! i \<noteq> stage_names ! Suc i"
  by (auto simp: numeral_eq_Suc less_Suc_eq)

text \<open>A reconciler that advances through the stages completes a surge in five favourable rounds.\<close>

lemma surge_run_completes:
  assumes run: "staged_run good rec (surge_stage key owned init mid wl) 5"
    and "init wl" "steady_run good rec wl ws" "good_rounds good rec wl ws = 5" "key \<in> set owned"
    and idle: "\<And>wl. init wl \<Longrightarrow> anno_get (wl_annotations wl) key = ''''"
  shows "remdups_adj (map (\<lambda>wl. anno_get (wl_annotations wl) key) (wl # run_stages rec wl ws)) = stage_names \<and>
     GetReplicas (last (wl # run_stages rec wl ws)) = 1 \<and>
     cleared owned (wl_annotations wl) (wl_annotations (last (wl # run_stages rec wl ws))) \<and>
     settled wl (run_calls rec wl ws)"
proof -
  have start: "surge_stage key owned init mid wl 0 wl []" using assms(2) by (simp add: surge_stage_def)
  have "surge_stage key owned init mid wl 5 (last (wl # run_stages rec wl ws)) (run_calls rec wl ws)"
    using staged_run.run_reaches [OF run start _ assms(3)] assms(4) by simp
  moreover have "remdups_adj (map (\<lambda>wl. anno_get (wl_annotations wl) key) (wl # run_stages rec wl ws)) =
      map ((!) stage_names) [0..<Suc (0 + good_rounds good rec wl ws)]"
    by (rule staged_run.run_names [OF run start _ assms(3)])
      (use assms(4,5) idle surge_stage_name stage_names_apart in \<open>blast | simp\<close>)+
  ultimately show ?thesis using assms(4) by (simp add: surge_stage_def upt_rec numeral_eq_Suc)
qed

end
