(* ===== verification/NodeProofs.thy ===== *)
theory NodeProofs
  imports NodeController Runs
begin

text \<open>
  Trace specifications of the drain-surge controller: which calls each handler makes, whatever the
  cluster answers, and that every write is a step of the abstract surge machine.
\<close>

section \<open>Autoscaler restore and abort\<close>

inductive restore_trace :: "ObjectMeta \<Rightarrow> error + unit \<Rightarrow> api_call list \<Rightarrow> bool" for meta where
  no_hpa: "anno_get (Annotations meta) AnnotationHPAName = '''' \<Longrightarrow> restore_trace meta (Inr ()) []"
| bad_min: "anno_get (Annotations meta) AnnotationHPAName \<noteq> '''' \<Longrightarrow>
    strconv_Atoi (anno_get (Annotations meta) AnnotationHPAOriginalMinReplicas) = Inl e0 \<Longrightarrow>
    \<not> is_panic e \<Longrightarrow> restore_trace meta (Inl e) []"
| patch_min: "anno_get (Annotations meta) AnnotationHPAName = h \<Longrightarrow> h \<noteq> '''' \<Longrightarrow>
    strconv_Atoi (anno_get (Annotations meta) AnnotationHPAOriginalMinReplicas) = Inr n \<Longrightarrow>
    restore_trace meta (api_result a) [PatchHPA (Namespace meta) h (word_of_int n) a]"

lemma emits_restoreHPA [emits_intros]:
  assumes "\<And>r l. restore_trace meta r l \<Longrightarrow> Q r l"
  shows "emits (restoreHPA K meta) Q"
  unfolding restoreHPA_def by (intro emits_intros; rule assms) (auto intro: restore_trace.intros)

inductive abort_trace :: "(DrainableWorkload \<Rightarrow> DrainableWorkload) \<Rightarrow> DrainableWorkload \<Rightarrow>
    error + Result \<Rightarrow> api_call list \<Rightarrow> bool" for f wl where
  patch_failed: "restore_trace (GetObjectMeta wl) r0 h \<Longrightarrow> \<not> is_panic e \<Longrightarrow>
    abort_trace f wl (Inl e) (h @ [PatchObject (Object (f wl)) (patch_of (f wl)) (Inl a)])"
| patched: "restore_trace (GetObjectMeta wl) r0 h \<Longrightarrow>
    abort_trace f wl (Inr ctrl_Result)
      (h @ [PatchObject (Object (f wl)) (patch_of (f wl)) (Inr obj), RecordEvent obj ev])"

abbreviation drain_aborted :: "DrainableWorkload \<Rightarrow> DrainableWorkload" where
  "drain_aborted \<equiv> aborted clearDrainAnnotations"

lemma abortWorkload_eq:
  "abortWorkload K wl = do {
     _ \<leftarrow> restoreHPA K (GetObjectMeta wl);
     checked (wrap_error ''abort workload: %w'' []) (Patch K (drain_aborted wl)) (\<lambda>obj. do {
       Eventf K obj EventTypeWarning ''DrainAborted'' ''Drain surge operation aborted'' [];
       ret (Inr ctrl_Result)
     })
   }"
  by (simp add: abortWorkload_def Let_def aborted_def restored_def [symmetric])

lemma emits_abortWorkload [emits_intros]:
  assumes "\<And>r l. abort_trace drain_aborted wl r l \<Longrightarrow> Q r l"
  shows "emits (abortWorkload K wl) Q"
  unfolding abortWorkload_eq
  by (intro case_vc emits_intros case_sumI; rule assms)
    (auto simp: api_result_Inl_iff intro: abort_trace.intros)

lemma restore_trace_patches [simp]: "restore_trace meta r l \<Longrightarrow> patches_ok P l"
  by (erule restore_trace.cases) simp_all

lemma restore_trace_no_panic: "restore_trace meta r l \<Longrightarrow> no_panic r"
  by (erule restore_trace.cases) (auto simp: no_panic_def api_result_Inl_iff)

lemma abort_trace_patches: "abort_trace f wl r l \<Longrightarrow> P (f wl) \<Longrightarrow> patches_ok P l"
  by (erule abort_trace.cases) simp_all

lemma abort_trace_no_panic: "abort_trace f wl r l \<Longrightarrow> no_panic r"
  by (erule abort_trace.cases) simp_all

section \<open>The handlers refine the abstract machine\<close>

interpretation drain: surge_writer AnnotationDrainState False drain_sets drainAnnotationKeys clearDrainAnnotations
  by unfold_locales (simp_all add: clearDrainAnnotations_def drain_sets_owned)

text \<open>What every handler of the drain controller guarantees of its result and its trace.\<close>

definition drain_ok :: "DrainableWorkload \<Rightarrow> error + 'a \<Rightarrow> api_call list \<Rightarrow> bool" where
  "drain_ok wl r l \<longleftrightarrow> no_panic r \<and> patches_ok (drain_write wl) l"

lemma annotate_to_state:
  "anno_get (wl_annotations wl) k' \<noteq> '''' \<Longrightarrow> annotate k s wl = Inr (to_state k s wl)"
  by (auto simp: annotate_def to_state_def anno_set_def dest!: anno_get_Some_D)

lemma annotate_to_state_original:
  "getOriginalReplicas (wl_annotations wl) = Inr n \<Longrightarrow> annotate k s wl = Inr (to_state k s wl)"
  by (auto simp: annotate_def to_state_def anno_set_def dest!: getOriginalReplicas_Some)

lemma drain_ok_abort_trace:
  assumes "abort_trace drain_aborted wl r l" "anno_get (wl_annotations wl) AnnotationDrainState \<noteq> ''''"
  shows "no_panic r" "patches_ok (drain_write wl) l"
  using assms(1) drain.write_aborted [OF assms(2)]
  by (simp_all add: abort_trace_no_panic abort_trace_patches)

lemma meta_if_SetReplicas [simp]: "GetObjectMeta (if b then SetReplicas n wl else wl) = GetObjectMeta wl"
  by simp

lemmas drain_vc = drain_ok_def api_result_Inl_iff annotate_to_state annotate_to_state_original
  drain_ok_abort_trace

lemma drain_ok_handlePending:
  assumes "anno_get (wl_annotations wl) AnnotationDrainState = ''''" "GetReplicas wl = 1"
  shows "emits (handlePending K cfg wl nodeName) (drain_ok wl)"
  unfolding handlePending_def
  by (intro case_vc emits_intros case_sumI)
    (auto simp: drain_vc assms anno_lookup_make dest: IsHPAAtMinReplicas_Some
      intro!: drain.write_start drain.write_start_hpa)

lemma drain_ok_handleScaleUp:
  assumes "anno_get (wl_annotations wl) AnnotationDrainState = DrainStatePending"
  shows "emits (handleScaleUp K cfg wl nodeName) (drain_ok wl)"
  unfolding handleScaleUp_def
  by (intro case_vc emits_intros case_sumI)
   (auto simp: drain_vc assms
      intro!: drain.write_reapply drain.write_confirm)

lemma drain_ok_handleWaitReady:
  assumes "anno_get (wl_annotations wl) AnnotationDrainState = DrainStateScaledUp"
  shows "emits (handleWaitReady K cfg wl nodeName) (drain_ok wl)"
  unfolding handleWaitReady_def waitReady_check_def
  by (intro case_vc emits_intros case_sumI)
   (auto simp: drain_vc assms
      intro!: drain.write_reapply_same drain.write_ready)

lemma drain_ok_handleWaitEviction:
  assumes "anno_get (wl_annotations wl) AnnotationDrainState = DrainStateReady"
  shows "emits (handleWaitEviction K cfg wl nodeName) (drain_ok wl)"
  unfolding handleWaitEviction_def
  by (intro case_vc emits_intros case_sumI)
   (auto simp: drain_vc assms dest: restore_trace_no_panic
      intro: drain.write_scale_down)

lemma drain_ok_handleScaleDown:
  assumes "anno_get (wl_annotations wl) AnnotationDrainState = DrainStateDraining"
  shows "emits (handleScaleDown K cfg wl) (drain_ok wl)"
  unfolding handleScaleDown_def
  by (intro case_vc emits_intros case_sumI)
   (auto simp: drain_vc assms intro: drain.write_finish)

lemma drain_ok_handleCleanup:
  assumes "anno_get (wl_annotations wl) AnnotationDrainState = DrainStateDone"
  shows "emits (handleCleanup K wl) (drain_ok wl)"
  unfolding handleCleanup_def
  by (intro case_vc emits_intros case_sumI)
   (auto simp: drain_vc assms intro: drain.write_cleanup)

lemma drain_ok_dispatch:
  assumes "anno_get (wl_annotations wl) AnnotationDrainState = s" "s = '''' \<Longrightarrow> GetReplicas wl = 1"
  shows "emits (drain_dispatch K cfg wl nodeName s) (drain_ok wl)"
  using assms unfolding drain_dispatch_def
  by (auto intro: drain_ok_handlePending drain_ok_handleScaleUp drain_ok_handleWaitReady
      drain_ok_handleWaitEviction drain_ok_handleScaleDown drain_ok_handleCleanup
      intro!: emits_abortWorkload simp: drain_vc)

section \<open>Reconciling one workload\<close>

text \<open>The conditions under which the controller takes a workload on.\<close>

definition drain_eligible :: "Config \<Rightarrow> string \<Rightarrow> DrainableWorkload \<Rightarrow> bool" where
  "drain_eligible cfg nodeName wl \<longleftrightarrow>
     anno_get (wl_annotations wl) (EnabledAnnotation cfg) = ''true'' \<and> GetReplicas wl = 1 \<and> IsStable wl \<and>
     anno_get (wl_annotations wl) AnnotationDrainNode \<in> {'''', nodeName} \<and> CanSurge wl"

text \<open>The autoscalers of a namespace leave room for a second replica of the workload.\<close>

definition hpa_allows_surge :: "DrainableWorkload \<Rightarrow> HorizontalPodAutoscaler list \<Rightarrow> bool" where
  "hpa_allows_surge wl hpas \<longleftrightarrow>
     (case find_hpa (Name (GetObjectMeta wl)) (GetObjectKind wl) hpas of
        None \<Rightarrow> True | Some hpa \<Rightarrow> 1 < sint (hpa_MaxReplicas hpa))"

lemma emits_shouldProcess [emits_intros]:
  assumes refused: "\<And>l. writes l = [] \<Longrightarrow> Q False l"
    and accepted: "\<And>hpas. drain_eligible cfg nodeName wl \<Longrightarrow> hpa_allows_surge wl hpas \<Longrightarrow>
      Q True [ListHPAs (Namespace (GetObjectMeta wl)) (Inr hpas)]"
  shows "emits (shouldProcess K cfg wl nodeName) Q"
  unfolding shouldProcess_def
  by (intro emits_intros case_sumI)
    (auto intro!: emits_intros refused accepted simp: drain_eligible_def hpa_allows_surge_def
      split: option.splits)

lemma emits_drain_overrun [emits_intros]:
  assumes "parseDrainStart (wl_annotations wl) = None \<Longrightarrow> Q None []"
    and "\<And>start now. parseDrainStart (wl_annotations wl) = Some start \<Longrightarrow>
      \<not> 3 * ReadinessTimeout cfg <s time_Sub now start \<Longrightarrow> \<not> ReadinessTimeout cfg <s time_Sub now start \<Longrightarrow>
      Q None [ReadClock now]"
    and "\<And>start now ev r l. parseDrainStart (wl_annotations wl) = Some start \<Longrightarrow>
      3 * ReadinessTimeout cfg <s time_Sub now start \<or> ReadinessTimeout cfg <s time_Sub now start \<Longrightarrow>
      abort_trace drain_aborted wl r l \<Longrightarrow> Q (Some r) (ReadClock now # RecordEvent (Object wl) ev # l)"
  shows "emits (drain_overrun K cfg wl nodeName) Q"
  unfolding drain_overrun_def by (intro emits_intros) (use assms in \<open>auto simp del: word_sless_iff_sint\<close>)

text \<open>
  The three ways a reconcile of one workload goes: the operation has overrun and is aborted, the
  workload is left alone, or the handler of its state runs after some reads \<open>pre\<close>.
\<close>

abbreviation drain_state :: "DrainableWorkload \<Rightarrow> DrainState" where
  "drain_state wl \<equiv> anno_get (wl_annotations wl) AnnotationDrainState"

abbreviation drain_node :: "DrainableWorkload \<Rightarrow> string" where
  "drain_node wl \<equiv> anno_get (wl_annotations wl) AnnotationDrainNode"

definition drain_expired :: "Config \<Rightarrow> Time \<Rightarrow> DrainableWorkload \<Rightarrow> bool" where
  "drain_expired cfg now wl \<longleftrightarrow>
     drain_state wl \<noteq> '''' \<and> drain_state wl \<noteq> DrainStateDone \<and>
     (\<exists>start. parseDrainStart (wl_annotations wl) = Some start \<and>
        (3 * ReadinessTimeout cfg <s time_Sub now start \<or> ReadinessTimeout cfg <s time_Sub now start))"

inductive reconcile_prefix :: "Config \<Rightarrow> string \<Rightarrow> DrainableWorkload \<Rightarrow> api_call list \<Rightarrow> bool"
  for cfg nodeName wl where
  new: "drain_state wl = '''' \<Longrightarrow> drain_eligible cfg nodeName wl \<Longrightarrow> hpa_allows_surge wl hpas \<Longrightarrow>
    reconcile_prefix cfg nodeName wl [ListHPAs (Namespace (GetObjectMeta wl)) (Inr hpas)]"
| finished: "drain_state wl = DrainStateDone \<Longrightarrow> drain_node wl \<in> {'''', nodeName} \<Longrightarrow>
    reconcile_prefix cfg nodeName wl []"
| undated: "drain_state wl \<noteq> '''' \<Longrightarrow> parseDrainStart (wl_annotations wl) = None \<Longrightarrow>
    drain_node wl \<in> {'''', nodeName} \<Longrightarrow> reconcile_prefix cfg nodeName wl []"
| in_time: "drain_state wl \<noteq> '''' \<Longrightarrow> \<not> drain_expired cfg now wl \<Longrightarrow>
    drain_node wl \<in> {'''', nodeName} \<Longrightarrow> reconcile_prefix cfg nodeName wl [ReadClock now]"

inductive_cases reconcile_prefixE: "reconcile_prefix cfg nodeName wl l"

lemma emits_reconcileWorkload:
  assumes expired: "\<And>now ev r l. drain_expired cfg now wl \<Longrightarrow> abort_trace drain_aborted wl r l \<Longrightarrow>
      Q r (ReadClock now # RecordEvent (Object wl) ev # l)"
    and skipped: "\<And>l. writes l = [] \<Longrightarrow> drain_state wl = '''' \<or> drain_node wl \<notin> {'''', nodeName} \<Longrightarrow> Q (Inr ctrl_Result) l"
    and handled: "\<And>pre. reconcile_prefix cfg nodeName wl pre \<Longrightarrow>
      emits (drain_dispatch K cfg wl nodeName (drain_state wl)) (\<lambda>r l. Q r (pre @ l))"
  shows "emits (reconcileWorkload K cfg wl nodeName) Q"
proof -
  have new: "emits (drain_dispatch K cfg wl nodeName '''')
      (\<lambda>r l. Q r (ListHPAs (Namespace (GetObjectMeta wl)) (Inr hpas) # l))"
    if "drain_state wl = ''''" "drain_eligible cfg nodeName wl" "hpa_allows_surge wl hpas" for hpas
    using handled [OF reconcile_prefix.new] that by simp
  have finished: "emits (drain_dispatch K cfg wl nodeName DrainStateDone) Q"
    if "drain_state wl = DrainStateDone" "drain_node wl \<in> {'''', nodeName}"
    using handled [OF reconcile_prefix.finished] that by simp
  consider "drain_state wl = ''''" | "drain_state wl = DrainStateDone"
    | "drain_state wl \<noteq> ''''" "drain_state wl \<noteq> DrainStateDone" by blast
  then show ?thesis
  proof cases
    case 3
    have undated: "emits (drain_dispatch K cfg wl nodeName (drain_state wl)) Q"
      if "parseDrainStart (wl_annotations wl) = None" "drain_node wl \<in> {'''', nodeName}"
      using handled [OF reconcile_prefix.undated] that 3 by simp
    have in_time: "emits (drain_dispatch K cfg wl nodeName (drain_state wl)) (\<lambda>r l. Q r (ReadClock now # l))"
      if "\<not> drain_expired cfg now wl" "drain_node wl \<in> {'''', nodeName}" for now
      using handled [OF reconcile_prefix.in_time] that 3 by simp
    show ?thesis
      unfolding reconcileWorkload_def Let_def
      by (rule emits_bind, simp only: 3 simp_thms if_True DrainStateNone_def, rule emits_drain_overrun)
        (use 3 undated in_time in
          \<open>auto intro!: emits_return expired skipped simp: drain_expired_def\<close>)
  qed (use new finished in \<open>auto simp: reconcileWorkload_def intro!: emits_intros skipped\<close>)
qed

lemma drain_ok_reconcileWorkload: "emits (reconcileWorkload K cfg wl nodeName) (drain_ok wl)"
proof (rule emits_reconcileWorkload)
  fix pre assume pre: "reconcile_prefix cfg nodeName wl pre"
  then have "emits (drain_dispatch K cfg wl nodeName (drain_state wl)) (drain_ok wl)"
    by (intro drain_ok_dispatch refl) (auto elim!: reconcile_prefixE simp: drain_eligible_def)
  moreover have "patches_ok P pre" for P using pre by (cases rule: reconcile_prefix.cases) auto
  ultimately show "emits (drain_dispatch K cfg wl nodeName (drain_state wl)) (\<lambda>r l. drain_ok wl r (pre @ l))"
    by (auto simp: drain_ok_def elim: emits_mono)
qed (auto simp: drain_vc drain_expired_def intro: writes_Nil_patches)

section \<open>Reconciling a node\<close>

lemma emits_resolve_owner:
  "emits (resolve_owner K ns refs) (\<lambda>r l. writes l = [] \<and> no_panic r \<and> (\<forall>wl. r = Inr (Some wl) \<longrightarrow> wl \<in> read_in l))"
  by (induction K ns refs rule: resolve_owner.induct)
    (auto intro!: emits_intros case_sumI simp: api_result_Inl_iff)

lemma emits_ResolveWorkloadFromPod:
  "emits (ResolveWorkloadFromPod K pod)
     (\<lambda>r l. writes l = [] \<and> no_panic r \<and> (\<forall>wl. r = Inr (Some wl) \<longrightarrow> wl \<in> read_in l))"
  unfolding ResolveWorkloadFromPod_def Let_def
  by (auto intro!: emits_intros case_sumI emits_mono [OF emits_resolve_owner] simp: api_result_Inl_iff)

definition wl_values :: "workload_map \<Rightarrow> DrainableWorkload set" where
  "wl_values ws = snd ` set ws"

lemma wl_values_simps [simp]:
  "wl_values [] = {}" "wl_values (kw # ws) = insert (snd kw) (wl_values ws)"
  by (auto simp: wl_values_def)

lemma put_if_absent_values: "wl_values (put_if_absent k wl ws) \<subseteq> insert wl (wl_values ws)"
  by (auto simp: put_if_absent_def wl_values_def split: option.splits)

lemma emits_resolve_pods:
  "emits (resolve_pods K pods ws) (\<lambda>ws' l. writes l = [] \<and> wl_values ws' \<subseteq> wl_values ws \<union> read_in l)"
proof (induction pods arbitrary: ws)
  case (Cons pod pods)
  have next_pod: "emits (resolve_pods K pods ws')
      (\<lambda>ws'' l'. writes (l @ l') = [] \<and> wl_values ws'' \<subseteq> wl_values ws \<union> read_in (l @ l'))"
    if "writes l = []" "wl_values ws' \<subseteq> wl_values ws \<union> read_in l" for ws' l
    using that by (intro emits_mono [OF Cons.IH [of ws']]) auto
  show ?case
    unfolding resolve_pods.simps
    by (intro emits_if emits_bind emits_mono [OF emits_ResolveWorkloadFromPod] emits_case_sum emits_case_option
        Cons.IH next_pod) (use put_if_absent_values in fastforce)+
qed (auto intro: emits_intros)

lemma in_range_map:
  "kw \<in> set (range_map K ws) \<longleftrightarrow>
     fst kw \<in> set (pf_range_order K (map fst ws)) \<and> map_of ws (fst kw) = Some (snd kw)"
proof -
  have "kw \<in> set (List.map_filter (\<lambda>k. map_option (Pair k) (map_of ws k)) ks) \<longleftrightarrow>
      fst kw \<in> set ks \<and> map_of ws (fst kw) = Some (snd kw)" for ks
    by (induction ks) (auto simp: map_filter_simps split: option.splits)
  then show ?thesis by (simp add: range_map_def)
qed

lemma range_map_values: "wl_values (range_map K ws) \<subseteq> wl_values ws"
  by (auto simp: wl_values_def in_range_map dest!: map_of_SomeD intro: rev_image_eqI)

lemma update_values: "wl_values (AList.update k wl ws) \<subseteq> insert wl (wl_values ws)"
  by (induction ws) auto

lemma fold_update_values:
  "wl_values (fold (\<lambda>wl. AList.update (wl_key wl) wl) wls ws) \<subseteq> set wls \<union> wl_values ws"
proof (induction wls arbitrary: ws)
  case (Cons wl wls)
  from Cons [of "AList.update (wl_key wl) wl ws"] update_values [of "wl_key wl" wl ws]
  show ?case by auto
qed simp

lemma fold_put_values:
  "wl_values (fold (\<lambda>(k, wl). put_if_absent k wl) ws' ws) \<subseteq> wl_values ws' \<union> wl_values ws"
proof (induction ws' arbitrary: ws)
  case (Cons kw ws')
  from Cons [of "put_if_absent (fst kw) (snd kw) ws"] put_if_absent_values [of "fst kw" "snd kw" ws]
  show ?case by (auto simp: case_prod_unfold)
qed simp

lemma emits_findWorkloadsWithDrainNode:
  "emits (findWorkloadsWithDrainNode K n)
     (\<lambda>r l. writes l = [] \<and> no_panic r \<and> (\<forall>ws. r = Inr ws \<longrightarrow> wl_values ws \<subseteq> read_in l))"
proof -
  have "wl_values (fold (\<lambda>wl. AList.update (wl_key wl) wl)
      (map RolloutWorkload ros @ map DeploymentWorkload deps) []) \<subseteq> RolloutWorkload ` set ros \<union> DeploymentWorkload ` set deps"
    for ros deps
    using fold_update_values [of "map RolloutWorkload ros @ map DeploymentWorkload deps" "[]"] by simp
  then show ?thesis
    unfolding findWorkloadsWithDrainNode_def
    by (intro emits_intros case_sumI) (simp_all add: api_result_Inl_iff del: fold_append, auto)
qed

lemma emits_reconcile_all:
  "emits (reconcile_all K cfg n ws d) (\<lambda>r l. no_panic r \<and>
     patches_ok (\<lambda>wl'. \<exists>wl \<in> wl_values ws. drain_write wl wl') l)"
proof (induction ws arbitrary: d)
  case (Cons kw ws)
  obtain k wl where kw: "kw = (k, wl)" by fastforce
  show ?case
    unfolding kw reconcile_all.simps
    by (intro emits_bind emits_mono [OF drain_ok_reconcileWorkload] emits_case_sum emits_if emits_return
        emits_mono [OF Cons.IH]) (auto simp: drain_ok_def elim!: patches_ok_mono)
qed (auto intro: emits_intros)

lemma emits_abort_all:
  "emits (abort_all K ws errs) (\<lambda>r l. no_panic r \<and>
     patches_ok (\<lambda>wl'. \<exists>wl \<in> wl_values ws. wl' = drain_aborted wl) l \<and>
     (\<forall>wl \<in> wl_values ws. \<exists>a. PatchObject (Object (drain_aborted wl)) (patch_of (drain_aborted wl)) a \<in> set l))"
proof (induction ws arbitrary: errs)
  case (Cons kw ws)
  obtain k wl where kw: "kw = (k, wl)" by fastforce
  show ?case
    unfolding kw abort_all.simps
    by (intro emits_intros emits_mono [OF Cons.IH])
     (auto simp: dest: abort_trace_no_panic elim!: abort_trace.cases patches_ok_mono)
qed (auto intro: emits_intros)

text \<open>Every write of a node's reconcile comes from an object it has read; while the node is tainted it is
  a step of the surge machine, and otherwise an abort.\<close>

definition drains :: "Config \<Rightarrow> string \<Rightarrow> api_call list \<Rightarrow> bool" where
  "drains cfg n l = (case l of GetNode m (Inr node) # _ \<Rightarrow> m = n \<and> hasDrainTaint cfg node | _ \<Rightarrow> False)"

definition node_write :: "Config \<Rightarrow> string \<Rightarrow> api_call list \<Rightarrow> DrainableWorkload \<Rightarrow> bool" where
  "node_write cfg n l wl' \<longleftrightarrow> (\<exists>wl \<in> read_in l.
     if drains cfg n l then drain_write wl wl' else wl' = drain_aborted wl)"

lemma emits_abortWorkloadsForNode:
  "emits (abortWorkloadsForNode K n)
     (\<lambda>r l. no_panic r \<and> patches_ok (\<lambda>wl'. \<exists>wl \<in> read_in l. wl' = drain_aborted wl) l)"
  unfolding abortWorkloadsForNode_def
  by (intro emits_checked emits_mono [OF emits_findWorkloadsWithDrainNode] emits_mono [OF emits_abort_all]
      case_sumI emits_case_option emits_return)
    (auto simp: errors_Join_def elim!: patches_ok_mono intro: writes_Nil_patches split: if_splits
      dest!: subsetD [OF range_map_values])

lemma merged_values:
  assumes "wl_values ws \<subseteq> A" "\<forall>ws'. r = Inr ws' \<longrightarrow> wl_values ws' \<subseteq> B"
  shows "wl_values (range_map K (case r of Inl _ \<Rightarrow> ws
     | Inr ws' \<Rightarrow> fold (\<lambda>(k, wl). put_if_absent k wl) (range_map K ws') ws)) \<subseteq> A \<union> B"
proof (cases r)
  case (Inr ws')
  with assms range_map_values [of K ws'] fold_put_values [of "range_map K ws'" ws]
  show ?thesis by (intro subset_trans [OF range_map_values]) auto
qed (use assms in \<open>auto dest!: subsetD [OF range_map_values]\<close>)

lemma emits_reconcile_merged:
  assumes "wl_values ws \<subseteq> A" "\<forall>ws'. r = Inr ws' \<longrightarrow> wl_values ws' \<subseteq> B"
    and "merged = (case r of Inl _ \<Rightarrow> ws | Inr ws' \<Rightarrow> fold (\<lambda>(k, wl). put_if_absent k wl) (range_map K ws') ws)"
  shows "emits (reconcile_all K cfg n (range_map K merged) d) (\<lambda>r l. no_panic r \<and>
     patches_ok (\<lambda>wl'. \<exists>wl \<in> A \<union> B. drain_write wl wl') l)"
  using merged_values [OF assms(1,2), of K] unfolding assms(3)
  by (intro emits_mono [OF emits_reconcile_all]) (auto elim!: patches_ok_mono)

lemma emits_reconcileTaintedNode:
  "emits (reconcileTaintedNode K cfg node) (\<lambda>r l. no_panic r \<and>
     patches_ok (\<lambda>wl'. \<exists>wl \<in> read_in l. drain_write wl wl') l)"
  unfolding reconcileTaintedNode_def
proof (intro emits_checked emits_client_call case_sumI emits_bind emits_mono [OF emits_resolve_pods]
      emits_mono [OF emits_findWorkloadsWithDrainNode] emits_Let emits_if emits_return, goal_cases)
  case (3 r pods ws l1 existing l2 merged)
  from 3 have "emits (reconcile_all K cfg (node_Name node) (range_map K merged) 0) (\<lambda>r l. no_panic r \<and>
      patches_ok (\<lambda>wl'. \<exists>wl \<in> read_in l1 \<union> read_in l2. drain_write wl wl') l)"
    by (intro emits_reconcile_merged) auto
  then show ?case
    by (rule emits_mono, use 3 in \<open>intro case_sumI emits_if emits_return\<close>)
      (use 3 in \<open>auto simp: patch_ok_def intro: writes_Nil_patches elim!: patches_ok_mono\<close>)
qed (auto simp: api_result_Inl_iff patch_ok_def intro: writes_Nil_patches)

lemma node_ok_Reconcile:
  "emits (Reconcile K cfg n) (\<lambda>r l. no_panic r \<and> patches_ok (node_write cfg n l) l)"
  unfolding Reconcile_def
  by (intro emits_intros emits_mono [OF emits_abortWorkloadsForNode] emits_mono [OF emits_reconcileTaintedNode])
    (auto simp: node_write_def drains_def patch_ok_def elim!: patches_ok_mono)

section \<open>Orphan recovery\<close>

lemma emits_abort_orphans:
  "emits (abort_orphans K tainted wls) (\<lambda>r l. no_panic r \<and>
     patches_ok (\<lambda>wl'. \<exists>wl \<in> set wls. is_orphan tainted wl \<and> wl' = drain_aborted wl) l \<and>
     (\<forall>wl \<in> set wls. is_orphan tainted wl \<longrightarrow>
        (\<exists>a. PatchObject (Object (drain_aborted wl)) (patch_of (drain_aborted wl)) a \<in> set l)))"
proof (induction wls)
  case (Cons wl wls)
  show ?case
    unfolding abort_orphans.simps
    by (intro emits_intros emits_mono [OF Cons.IH])
     (auto dest: abort_trace_no_panic elim!: abort_trace.cases patches_ok_mono)
qed (auto intro: emits_intros)

lemma set_tainted_names: "set (tainted_names cfg nodes) = node_Name ` {n \<in> set nodes. hasDrainTaint cfg n}"
  by (induction nodes) auto

end
