(* ===== verification/RolloutProofs.thy ===== *)
theory RolloutProofs
  imports RolloutController NodeProofs
begin

text \<open>
  Trace specifications of the restart-surge controller, parallel to those of the drain controller:
  the calls of each handler, and that every write is a step of the abstract surge machine with the
  restart keys, in which the controller may also yield to a drain.
\<close>

section \<open>Clock and abort\<close>

lemma emits_timeNow [emits_intros]: "(\<And>t. Q t [ReadClock t]) \<Longrightarrow> emits (timeNow K now) Q"
  unfolding timeNow_def by (intro emits_intros)

abbreviation restart_aborted :: "DrainableWorkload \<Rightarrow> DrainableWorkload" where
  "restart_aborted \<equiv> aborted clearRestartSurgeAnnotations"

abbreviation restart_state :: "DrainableWorkload \<Rightarrow> DrainState" where
  "restart_state wl \<equiv> anno_get (wl_annotations wl) AnnotationRestartSurgeState"

lemma abortRestartSurge_eq:
  "abortRestartSurge K wl = do {
     _ \<leftarrow> restoreHPA K (GetObjectMeta wl);
     checked (wrap_error ''abort restart-surge: %w'' []) (Patch K (restart_aborted wl)) (\<lambda>obj. do {
       Eventf K obj EventTypeWarning ''RestartSurgeAborted'' ''Restart-surge operation aborted'' [];
       ret (Inr ctrl_Result)
     })
   }"
  by (simp add: abortRestartSurge_def Let_def aborted_def restored_def [symmetric] restart_restoreHPA_eq)

lemma emits_abortRestartSurge [emits_intros]:
  assumes "\<And>r l. abort_trace restart_aborted wl r l \<Longrightarrow> Q r l"
  shows "emits (abortRestartSurge K wl) Q"
  unfolding abortRestartSurge_eq
  by (intro case_vc emits_intros case_sumI; rule assms)
    (auto simp: api_result_Inl_iff intro: abort_trace.intros)

section \<open>The handlers refine the abstract machine\<close>

interpretation restart: surge_writer AnnotationRestartSurgeState True restartSurgeFullKeys restartSurgeFullKeys
  clearRestartSurgeAnnotations
  by unfold_locales (simp_all add: clearRestartSurgeAnnotations_def owned_keys_subset)

definition restart_ok :: "DrainableWorkload \<Rightarrow> error + 'a \<Rightarrow> api_call list \<Rightarrow> bool" where
  "restart_ok wl r l \<longleftrightarrow> no_panic r \<and> patches_ok (restart_write wl) l"

lemma restart_ok_abort_trace:
  assumes "abort_trace restart_aborted wl r l" "restart_state wl \<noteq> ''''"
  shows "no_panic r" "patches_ok (restart_write wl) l"
  using assms(1) restart.write_aborted [OF assms(2)]
  by (simp_all add: abort_trace_no_panic abort_trace_patches)

lemmas restart_vc = restart_ok_def api_result_Inl_iff annotate_to_state annotate_to_state_original
  restart_ok_abort_trace

text \<open>The write of \<open>yieldToDrain\<close>.\<close>

definition yielded :: "DrainableWorkload \<Rightarrow> DrainableWorkload" where
  "yielded wl = SetAnnotations (clearRestartSurgeExclusiveAnnotations (wl_annotations wl))
     (if anno_get (wl_annotations wl) AnnotationHPAName = '''' then restored wl else wl)"

lemma yieldToDrain_eq:
  "yieldToDrain K wl =
     checked (wrap_error ''yield to drain: %w'' []) (Patch K (yielded wl)) (\<lambda>obj. do {
       Eventf K obj EventTypeWarning ''RestartSurgeYielded'' ''Restart-surge yielded to in-progress drain'' [];
       ret (Inr ctrl_Result)
     })"
proof -
  have "(if b then case getOriginalReplicas (wl_annotations wl) of
       Inl x \<Rightarrow> wl | Inr original \<Rightarrow> SetReplicas original wl else wl) = (if b then restored wl else wl)" for b
    by (simp add: restored_def)
  moreover have "wl_annotations (if b then restored wl else wl) = wl_annotations wl" for b by simp
  ultimately show ?thesis by (simp add: yieldToDrain_def Let_def yielded_def)
qed

lemma write_yielded:
  assumes "restart_state wl \<noteq> ''''" "restart_state wl \<noteq> DrainStateDone"
  shows "restart_write wl (yielded wl)"
  using assms owned_keys_subset
  by (intro surge_write_yieldI surge_stepI(10))
    (auto simp: yielded_def view_def restored_def clearRestartSurgeExclusiveAnnotations_def same_identity_def keeps_def
      split: sum.splits)

lemma restart_ok_surge:
  assumes "restart_state (RolloutWorkload ro) = ''''" "GetReplicas (RolloutWorkload ro) = 1" "ro_RestartAt ro \<noteq> None"
  shows "emits (restart_surge K cfg now ro) (restart_ok (RolloutWorkload ro))"
  unfolding restart_surge_def
  by (intro case_vc emits_intros case_sumI)
    (use assms in \<open>auto simp: restart_vc anno_lookup_make dest: IsHPAAtMinReplicas_Some
      intro!: restart.write_start restart.write_start_hpa simp del: GetObjectMeta.simps GetReplicas.simps SetAnnotations.simps SetReplicas.simps Object.simps\<close>)

lemma restart_ok_handlePending:
  assumes "restart_state (RolloutWorkload ro) = ''''"
  shows "emits (handleRestartPending K cfg now ro) (restart_ok (RolloutWorkload ro))"
  unfolding handleRestartPending_def Let_def
  by (intro case_vc emits_intros case_sumI emits_mono [OF restart_ok_surge])
    (use assms in \<open>auto simp: restart_vc isRestartStuck_def split: option.splits\<close>)

lemma restart_ok_handleScaleUp:
  assumes "restart_state wl = DrainStatePending"
  shows "emits (handleRestartScaleUp K cfg wl) (restart_ok wl)"
  unfolding handleRestartScaleUp_def
  by (intro case_vc emits_intros case_sumI)
    (auto simp: restart_vc assms intro!: restart.write_reapply_same)

lemma restart_ok_handleWaitReady:
  assumes "restart_state wl = DrainStateScaledUp"
  shows "emits (handleRestartWaitReady K cfg wl) (restart_ok wl)"
  unfolding handleRestartWaitReady_def restartWaitReady_check_def
  by (intro case_vc emits_intros case_sumI)
    (auto simp: restart_vc assms intro!: restart.write_reapply_same restart.write_ready)

lemma restart_ok_finish:
  assumes "restart_state wl = DrainStateReady"
  shows "emits (restart_finish K cfg wl) (restart_ok wl)"
  unfolding restart_finish_def restart_restoreHPA_eq
  by (intro case_vc emits_intros case_sumI)
    (auto simp: restart_vc assms dest: restore_trace_no_panic intro: restart.write_scale_down)

lemma restart_ok_handleWaitForArgo:
  assumes "restart_state (RolloutWorkload ro) = DrainStateReady"
  shows "emits (handleRestartWaitForArgo K cfg ro) (restart_ok (RolloutWorkload ro))"
  unfolding handleRestartWaitForArgo_def Let_def
  by (intro case_vc emits_intros case_sumI emits_mono [OF restart_ok_finish])
    (use assms in \<open>auto simp: restart_vc\<close>)

lemma restart_ok_handleScaleDown:
  assumes "restart_state wl = DrainStateDraining"
  shows "emits (handleRestartScaleDown K cfg wl) (restart_ok wl)"
  unfolding handleRestartScaleDown_def
  by (intro case_vc emits_intros case_sumI)
    (auto simp: restart_vc assms intro: restart.write_finish)

lemma restart_ok_handleCleanup:
  assumes "restart_state wl = DrainStateDone"
  shows "emits (handleRestartCleanup K wl) (restart_ok wl)"
  unfolding handleRestartCleanup_def
  by (intro case_vc emits_intros case_sumI)
    (auto simp: restart_vc assms intro: restart.write_cleanup)

lemma restart_ok_yield:
  assumes "restart_state wl \<noteq> ''''" "restart_state wl \<noteq> DrainStateDone"
  shows "emits (yieldToDrain K wl) (restart_ok wl)"
  unfolding yieldToDrain_eq
  by (intro case_vc emits_intros case_sumI) (auto simp: restart_vc write_yielded assms)

lemma restart_ok_dispatch:
  "emits (restart_dispatch K cfg now ro (restart_state (RolloutWorkload ro))) (restart_ok (RolloutWorkload ro))"
  unfolding restart_dispatch_def Let_def
  by (auto intro: restart_ok_handlePending restart_ok_handleScaleUp restart_ok_handleWaitReady
      restart_ok_handleWaitForArgo restart_ok_handleScaleDown restart_ok_handleCleanup
      intro!: emits_abortRestartSurge simp: restart_vc simp del: GetObjectMeta.simps)

section \<open>Reconciling one Rollout\<close>

definition restart_expired :: "Config \<Rightarrow> Time \<Rightarrow> DrainableWorkload \<Rightarrow> bool" where
  "restart_expired cfg now wl \<longleftrightarrow>
     restart_state wl \<noteq> '''' \<and> restart_state wl \<noteq> DrainStateDone \<and>
     (\<exists>start. parseRestartSurgeStart (wl_annotations wl) = Some start \<and>
        (3 * RestartSurgeTimeout cfg <s time_Sub now start \<or> RestartSurgeTimeout cfg <s time_Sub now start))"

lemma emits_restart_overrun [emits_intros]:
  assumes "parseRestartSurgeStart (wl_annotations wl) = None \<Longrightarrow> Q None []"
    and "\<And>start t. parseRestartSurgeStart (wl_annotations wl) = Some start \<Longrightarrow>
      \<not> 3 * RestartSurgeTimeout cfg <s time_Sub t start \<Longrightarrow> \<not> RestartSurgeTimeout cfg <s time_Sub t start \<Longrightarrow>
      Q None [ReadClock t]"
    and "\<And>start t ev r l. parseRestartSurgeStart (wl_annotations wl) = Some start \<Longrightarrow>
      3 * RestartSurgeTimeout cfg <s time_Sub t start \<or> RestartSurgeTimeout cfg <s time_Sub t start \<Longrightarrow>
      abort_trace restart_aborted wl r l \<Longrightarrow> Q (Some r) (ReadClock t # RecordEvent (Object wl) ev # l)"
  shows "emits (restart_overrun K cfg now wl) Q"
  unfolding restart_overrun_def by (intro emits_intros) (use assms in \<open>auto simp del: word_sless_iff_sint\<close>)

abbreviation restart_active :: "DrainableWorkload \<Rightarrow> bool" where
  "restart_active wl \<equiv> restart_state wl \<noteq> '''' \<and> restart_state wl \<noteq> DrainStateDone"

inductive restart_prefix :: "Config \<Rightarrow> DrainableWorkload \<Rightarrow> api_call list \<Rightarrow> bool" for cfg wl where
  inactive: "\<not> restart_active wl \<Longrightarrow> restart_prefix cfg wl []"
| undated: "parseRestartSurgeStart (wl_annotations wl) = None \<Longrightarrow> restart_prefix cfg wl []"
| in_time: "restart_active wl \<Longrightarrow> \<not> restart_expired cfg t wl \<Longrightarrow> restart_prefix cfg wl [ReadClock t]"

lemma emits_restart_reconcileWorkload:
  assumes expired: "\<And>t ev r l. restart_expired cfg t (RolloutWorkload ro) \<Longrightarrow>
      abort_trace restart_aborted (RolloutWorkload ro) r l \<Longrightarrow>
      Q r (ReadClock t # RecordEvent (Object (RolloutWorkload ro)) ev # l)"
    and yields: "\<And>pre. restart_prefix cfg (RolloutWorkload ro) pre \<Longrightarrow> drain_state (RolloutWorkload ro) \<noteq> '''' \<Longrightarrow>
      restart_active (RolloutWorkload ro) \<Longrightarrow>
      emits (yieldToDrain K (RolloutWorkload ro)) (\<lambda>r l. Q r (pre @ l))"
    and waits: "drain_state (RolloutWorkload ro) \<noteq> '''' \<Longrightarrow> \<not> restart_active (RolloutWorkload ro) \<Longrightarrow>
      Q (Inr ctrl_Result) []"
    and handled: "\<And>pre. restart_prefix cfg (RolloutWorkload ro) pre \<Longrightarrow> drain_state (RolloutWorkload ro) = '''' \<Longrightarrow>
      emits (restart_dispatch K cfg now ro (restart_state (RolloutWorkload ro))) (\<lambda>r l. Q r (pre @ l))"
  shows "emits (restart_reconcileWorkload K cfg now ro) Q"
proof (cases "restart_active (RolloutWorkload ro)")
  case False
  then have "restart_prefix cfg (RolloutWorkload ro) []" by (rule restart_prefix.inactive)
  with False waits handled [of "[]"] show ?thesis
    by (auto simp: restart_reconcileWorkload_def Let_def intro!: emits_intros)
next
  case True
  have tail: "emits (if drain_state (RolloutWorkload ro) \<noteq> '''' then yieldToDrain K (RolloutWorkload ro)
      else restart_dispatch K cfg now ro (restart_state (RolloutWorkload ro))) (\<lambda>r l. Q r (pre @ l))"
    if "restart_prefix cfg (RolloutWorkload ro) pre" for pre
    using yields [OF that] handled [OF that] True by simp
  have in_time: "restart_prefix cfg (RolloutWorkload ro) [ReadClock t]" if "\<not> restart_expired cfg t (RolloutWorkload ro)" for t
    using True that by (rule restart_prefix.in_time)
  show ?thesis
    unfolding restart_reconcileWorkload_def Let_def
    by (rule emits_bind, simp only: True simp_thms if_True DrainStateNone_def, rule emits_restart_overrun)
      (use True tail [OF restart_prefix.undated] tail [OF in_time] in
        \<open>auto intro!: emits_return expired simp: restart_expired_def simp del: GetObjectMeta.simps Object.simps\<close>)
qed

lemma restart_prefix_patches: "restart_prefix cfg wl pre \<Longrightarrow> patches_ok P pre"
  by (erule restart_prefix.cases) simp_all

lemma restart_ok_prefix:
  "emits m (restart_ok wl) \<Longrightarrow> restart_prefix cfg wl pre \<Longrightarrow> emits m (\<lambda>r l. restart_ok wl r (pre @ l))"
  by (auto simp: restart_ok_def restart_prefix_patches elim: emits_mono)

lemma restart_ok_reconcileWorkload:
  "emits (restart_reconcileWorkload K cfg now ro) (restart_ok (RolloutWorkload ro))"
proof (rule emits_restart_reconcileWorkload, goal_cases)
  case 2
  then show ?case by (intro restart_ok_prefix restart_ok_yield) auto
next
  case 4
  then show ?case by (intro restart_ok_prefix restart_ok_dispatch)
qed (auto simp: restart_vc restart_expired_def simp del: GetObjectMeta.simps)

lemma restart_ok_Reconcile:
  "emits (restart_Reconcile K cfg now req) (\<lambda>r l. no_panic r \<and>
     patches_ok (\<lambda>wl'. \<exists>wl \<in> read_in l. restart_write wl wl') l)"
  unfolding restart_Reconcile_def
  by (intro emits_intros emits_mono [OF restart_ok_reconcileWorkload])
    (auto simp: restart_ok_def patch_ok_def elim!: patches_ok_mono)

section \<open>Orphan recovery\<close>

definition restart_orphan :: "Rollout \<Rightarrow> bool" where
  "restart_orphan ro \<longleftrightarrow> restart_state (RolloutWorkload ro) \<noteq> '''' \<and> argoIdle ro"

lemma emits_restart_abort_orphans:
  "emits (restart_abort_orphans K ros) (\<lambda>r l. no_panic r \<and>
     patches_ok (\<lambda>wl'. \<exists>ro \<in> set ros. restart_orphan ro \<and> wl' = restart_aborted (RolloutWorkload ro)) l \<and>
     (\<forall>ro \<in> set ros. restart_orphan ro \<longrightarrow>
        (\<exists>a. PatchObject (Object (restart_aborted (RolloutWorkload ro)))
           (patch_of (restart_aborted (RolloutWorkload ro))) a \<in> set l)))"
proof (induction ros)
  case (Cons ro ros)
  show ?case
    unfolding restart_abort_orphans.simps
    by (intro emits_intros emits_mono [OF Cons.IH])
     (auto simp: restart_orphan_def dest: abort_trace_no_panic elim!: abort_trace.cases patches_ok_mono)
qed (auto intro: emits_intros)

end
