(* ===== verification/ManagerSetup.thy ===== *)
theory ManagerSetup
  imports RolloutController
begin

text \<open>
  How the controllers are registered with the manager: \<open>SetupWithManager\<close> of
  \<^verbatim>\<open>src/internal/controller/node_controller.go\<close> and \<^verbatim>\<open>rollout_controller.go\<close>, and the index keys of
  \<^verbatim>\<open>logfields.go\<close>. The manager of controller-runtime is a parameter, the record \<open>manager\<close>: what each of
  its calls answers, over an arbitrary state \<open>'m\<close>. A call is recorded with everything the controller
  hands over, functions included, so that the lemmas can speak of what has been registered.
\<close>

section \<open>What is handed to the manager\<close>

datatype api_kind = NodeKind | PodKind | RolloutKind | DeploymentKind

text \<open>A function of an index or a watch, with the type of object it casts its argument to.\<close>

datatype index_func = PodIndex "Pod \<Rightarrow> string list" | ObjectIndex "client_Object \<Rightarrow> string list"

datatype 's map_func =
    MapPod "Pod \<Rightarrow> Request list"
  | MapObject "client_Object \<Rightarrow> Request list"
  | MapPodByClient "Pod \<Rightarrow> ('s, Request list) api_prog"

text \<open>The builder of \<open>ctrl.NewControllerManagedBy\<close>; \<open>None\<close> is no predicate.\<close>

record 's controller_spec =
  cs_For :: api_kind
  cs_Predicates :: "(watch_event \<Rightarrow> bool) option"
  cs_Watches :: "(api_kind \<times> 's map_func) list"
  cs_MaxConcurrentReconciles :: nat
  cs_Reconciler :: "Request \<Rightarrow> ('s, error + Result) api_prog"

record manager_Options =
  opt_LeaderElection :: bool
  opt_LeaderElectionID :: string
  opt_HealthProbeBindAddress :: string
  opt_MetricsBindAddress :: string

datatype 's mgr_call =
    GetConfigOrDie "error option"
  | NewManager manager_Options "error option"
  | AddHealthzCheck string "error option"
  | AddReadyzCheck string "error option"
  | IndexField api_kind string index_func "error option"
  | CompleteController "'s controller_spec" "error option"
  | GoRecovery Config bool
  | StartManager "error option"

record ('m, 's) manager =
  mgr_GetConfigOrDie :: "('m, error option) state"
  mgr_NewManager :: "manager_Options \<Rightarrow> ('m, error option) state"
  mgr_AddHealthzCheck :: "string \<Rightarrow> ('m, error option) state"
  mgr_AddReadyzCheck :: "string \<Rightarrow> ('m, error option) state"
  mgr_IndexField :: "api_kind \<Rightarrow> string \<Rightarrow> index_func \<Rightarrow> ('m, error option) state"
  mgr_Complete :: "'s controller_spec \<Rightarrow> ('m, error option) state"
  mgr_Start :: "('m, error option) state"

type_synonym ('m, 's, 'a) mgr_prog = "('m, 's mgr_call, 'a) prog"

text \<open>The Go idiom \<^verbatim>\<open>if err := m; err != nil { return r }\<close>, followed by the rest of the function.\<close>

definition unless_error :: "('w, error option) state \<Rightarrow> (error \<Rightarrow> 'a) \<Rightarrow> ('w, 'a) state \<Rightarrow> ('w, 'a) state" where
  "unless_error m on_error rest = do {
     err \<leftarrow> m;
     (case err of Some e \<Rightarrow> ret (on_error e) | None \<Rightarrow> rest)
   }"

section \<open>The two controllers\<close>

definition IndexPodNodeName :: string where "IndexPodNodeName = ''spec.nodeName''"

definition IndexWorkloadDrainNode :: string where
  "IndexWorkloadDrainNode = ''metadata.annotations.'' @ AnnotationDrainNode"

definition node_controller_spec :: "'s platform \<Rightarrow> Config \<Rightarrow> 's controller_spec" where
  "node_controller_spec K cfg = \<lparr>
     cs_For = NodeKind,
     cs_Predicates = None,
     cs_Watches = [(PodKind, MapPod mapPodToNode), (RolloutKind, MapObject mapWorkloadToNode),
                   (DeploymentKind, MapObject mapWorkloadToNode)],
     cs_MaxConcurrentReconciles = 5,
     cs_Reconciler = (\<lambda>req. Reconcile K cfg (req_Name req))\<rparr>"

definition SetupWithManager ::
  "('m, 's) manager \<Rightarrow> 's platform \<Rightarrow> Config \<Rightarrow> ('m, 's, error option) mgr_prog" where
  "SetupWithManager mgr K cfg =
     unless_error (call (IndexField PodKind IndexPodNodeName (PodIndex podNodeNameIndex))
         (mgr_IndexField mgr PodKind IndexPodNodeName (PodIndex podNodeNameIndex)))
       (\<lambda>e. Some (Wrap ''create pod node index: %w'' [] e))
     (unless_error (call (IndexField RolloutKind IndexWorkloadDrainNode (ObjectIndex indexByDrainNodeAnnotation))
         (mgr_IndexField mgr RolloutKind IndexWorkloadDrainNode (ObjectIndex indexByDrainNodeAnnotation)))
       (\<lambda>e. Some (Wrap ''create rollout drain-node index: %w'' [] e))
     (unless_error (call (IndexField DeploymentKind IndexWorkloadDrainNode (ObjectIndex indexByDrainNodeAnnotation))
         (mgr_IndexField mgr DeploymentKind IndexWorkloadDrainNode (ObjectIndex indexByDrainNodeAnnotation)))
       (\<lambda>e. Some (Wrap ''create deployment drain-node index: %w'' [] e))
     (call (CompleteController (node_controller_spec K cfg)) (mgr_Complete mgr (node_controller_spec K cfg)))))"

text \<open>\<open>main\<close> leaves the clock of the restart reconciler nil.\<close>

definition rollout_controller_spec :: "'s platform \<Rightarrow> Config \<Rightarrow> 's controller_spec" where
  "rollout_controller_spec K cfg = \<lparr>
     cs_For = RolloutKind,
     cs_Predicates = Some (rolloutRelevantPredicate (EnabledAnnotation cfg)),
     cs_Watches = [(PodKind, MapPodByClient (mapPodToRollout K))],
     cs_MaxConcurrentReconciles = 5,
     cs_Reconciler = restart_Reconcile K cfg None\<rparr>"

definition restart_SetupWithManager ::
  "('m, 's) manager \<Rightarrow> 's platform \<Rightarrow> Config \<Rightarrow> ('m, 's, error option) mgr_prog" where
  "restart_SetupWithManager mgr K cfg =
     call (CompleteController (rollout_controller_spec K cfg)) (mgr_Complete mgr (rollout_controller_spec K cfg))"

section \<open>Sequences of calls that stop at the first failure\<close>

text \<open>
  \<open>stops_at_failure ok err steps r l\<close>: the trace \<open>l\<close> of a run that makes the calls \<open>steps\<close> in order, each
  given as a function of its answer. Either all succeeded and the rest of the trace and the result
  satisfy \<open>ok\<close>, or \<open>l\<close> ends with the first call that failed and the result satisfies \<open>err\<close>.
\<close>

inductive stops_at_failure ::
  "('r \<Rightarrow> 'c list \<Rightarrow> bool) \<Rightarrow> ('r \<Rightarrow> bool) \<Rightarrow> (error option \<Rightarrow> 'c) list \<Rightarrow> 'r \<Rightarrow> 'c list \<Rightarrow> bool" for ok err where
  all_done: "ok r l \<Longrightarrow> stops_at_failure ok err [] r l"
| failed: "err r \<Longrightarrow> stops_at_failure ok err (mk # steps) r [mk (Some e)]"
| went_on: "stops_at_failure ok err steps r l \<Longrightarrow> stops_at_failure ok err (mk # steps) r (mk None # l)"

abbreviation steps_of :: "('m, 'c, error option) prog \<Rightarrow> (error option \<Rightarrow> 'c) list \<Rightarrow> bool" where
  "steps_of m steps \<equiv> emits m (stops_at_failure (\<lambda>r l. r = None \<and> l = []) (\<lambda>r. r \<noteq> None) steps)"

lemma steps_of_call: "steps_of (call mk m) [mk]"
proof (rule emits_call)
  fix r show "stops_at_failure (\<lambda>r l. r = None \<and> l = []) (\<lambda>r. r \<noteq> None) [mk] r [mk r]"
    by (cases r) (auto intro: stops_at_failure.intros)
qed

text \<open>The rest of the function runs after all steps succeeded, and not at all after a failure.\<close>

lemma stops_at_failure_bind:
  assumes "stops_at_failure (\<lambda>r l. r = None \<and> l = []) (\<lambda>r. r \<noteq> None) steps r l"
    and "\<And>e. r = Some e \<Longrightarrow> err r' \<and> l' = []"
    and "r = None \<Longrightarrow> stops_at_failure ok err steps' r' l'"
  shows "stops_at_failure ok err (steps @ steps') r' (l @ l')"
  using assms
proof (induction rule: stops_at_failure.induct)
  case (failed r mk steps e)
  then show ?case by (auto intro: stops_at_failure.failed)
qed (auto intro: stops_at_failure.went_on)

lemma emits_steps:
  assumes m: "steps_of m steps" and err: "\<And>e. err (on_error e)"
    and rest: "emits rest (stops_at_failure ok err steps')"
  shows "emits (unless_error m on_error rest) (stops_at_failure ok err (steps @ steps'))"
  unfolding unless_error_def
proof (rule emits_bind, rule emits_mono [OF m])
  fix r :: "error option" and l assume l: "stops_at_failure (\<lambda>r l. r = None \<and> l = []) (\<lambda>r. r \<noteq> None) steps r l"
  show "emits (case r of Some e \<Rightarrow> ret (on_error e) | None \<Rightarrow> rest)
      (\<lambda>b l'. stops_at_failure ok err (steps @ steps') b (l @ l'))"
  proof (cases r)
    case None
    with l show ?thesis by (auto intro!: emits_mono [OF rest] stops_at_failure_bind)
  next
    case (Some e)
    with l err show ?thesis by (auto intro!: emits_return stops_at_failure_bind [where l' = "[]", simplified])
  qed
qed

lemma emits_step:
  assumes "\<And>e. err (on_error e)" "emits rest (stops_at_failure ok err steps)"
  shows "emits (unless_error (call mk m) on_error rest) (stops_at_failure ok err (mk # steps))"
  using emits_steps [OF steps_of_call assms] by simp

text \<open>A run past the steps made every one of them with no error.\<close>

lemma stops_at_failure_all:
  "stops_at_failure ok err steps r l \<Longrightarrow>
     (\<exists>l'. l = map (\<lambda>mk. mk None) steps @ l' \<and> ok r l') \<or> (\<exists>n e. n < length steps \<and> err r \<and>
       l = map (\<lambda>mk. mk None) (take n steps) @ [(steps ! n) (Some e)])"
proof (induction rule: stops_at_failure.induct)
  case (failed r mk steps e)
  then show ?case by (intro disjI2 exI [of _ 0] exI [of _ e]) simp
next
  case (went_on steps r l mk)
  from went_on.IH show ?case
  proof
    assume "\<exists>n e. n < length steps \<and> err r \<and> l = map (\<lambda>mk. mk None) (take n steps) @ [(steps ! n) (Some e)]"
    then obtain n e where "n < length steps" "err r" "l = map (\<lambda>mk. mk None) (take n steps) @ [(steps ! n) (Some e)]"
      by blast
    then show ?thesis by (intro disjI2 exI [of _ "Suc n"] exI [of _ e]) simp
  qed auto
qed auto

definition node_setup_steps :: "'s platform \<Rightarrow> Config \<Rightarrow> (error option \<Rightarrow> 's mgr_call) list" where
  "node_setup_steps K cfg =
     [IndexField PodKind IndexPodNodeName (PodIndex podNodeNameIndex),
      IndexField RolloutKind IndexWorkloadDrainNode (ObjectIndex indexByDrainNodeAnnotation),
      IndexField DeploymentKind IndexWorkloadDrainNode (ObjectIndex indexByDrainNodeAnnotation),
      CompleteController (node_controller_spec K cfg)]"

lemma steps_of_SetupWithManager: "steps_of (SetupWithManager mgr K cfg) (node_setup_steps K cfg)"
  unfolding SetupWithManager_def node_setup_steps_def by (intro emits_step steps_of_call) simp_all

lemma steps_of_restart_SetupWithManager:
  "steps_of (restart_SetupWithManager mgr K cfg) [CompleteController (rollout_controller_spec K cfg)]"
  unfolding restart_SetupWithManager_def by (rule steps_of_call)

end
