(* ===== verification/ControllerMain.thy ===== *)
theory ControllerMain
  imports RolloutProofs ManagerSetup
begin

text \<open>
  \<^verbatim>\<open>src/cmd/controller/main.go\<close>: parse the flags, set the manager up, register the two
  reconcilers, start the orphan recovery once elected and run the manager. The program returns the exit
  status of the process. The recovery runs in a goroutine, launched with the configuration and
  the presence of the restart reconciler; it is a program of its own, \<open>elected_recovery\<close>.
\<close>

definition manager_options :: "Config \<Rightarrow> manager_Options" where
  "manager_options cfg = \<lparr>
     opt_LeaderElection = LeaderElect cfg,
     opt_LeaderElectionID = ControllerName @ ''-leader'',
     opt_HealthProbeBindAddress = HealthAddr cfg,
     opt_MetricsBindAddress = MetricsAddr cfg\<rparr>"

text \<open>The end of \<open>main\<close>: launch the recovery and run the manager until it stops.\<close>

definition main_run :: "('m, 's) manager \<Rightarrow> Config \<Rightarrow> bool \<Rightarrow> ('m, 's, nat) mgr_prog" where
  "main_run mgr cfg hasRestartReconciler = do {
     call (\<lambda>_. GoRecovery cfg hasRestartReconciler) (State_Monad.return ());
     unless_error (call StartManager (mgr_Start mgr)) (\<lambda>_. 1) (ret 0)
   }"

definition main :: "('m, 's) manager \<Rightarrow> 's platform \<Rightarrow> flag_values \<Rightarrow> ('m, 's, nat) mgr_prog" where
  "main mgr K fl =
     (case Parse fl of
        Inl _ \<Rightarrow> ret 1
      | Inr cfg \<Rightarrow>
          unless_error (call GetConfigOrDie (mgr_GetConfigOrDie mgr)) (\<lambda>_. 1)
         (unless_error (call (NewManager (manager_options cfg)) (mgr_NewManager mgr (manager_options cfg))) (\<lambda>_. 1)
         (unless_error (call (AddHealthzCheck ''healthz'') (mgr_AddHealthzCheck mgr ''healthz'')) (\<lambda>_. 1)
         (unless_error (call (AddReadyzCheck ''readyz'') (mgr_AddReadyzCheck mgr ''readyz'')) (\<lambda>_. 1)
         (unless_error (SetupWithManager mgr K cfg) (\<lambda>_. 1)
         (if RestartSurgeEnabled cfg
          then unless_error (restart_SetupWithManager mgr K cfg) (\<lambda>_. 1) (main_run mgr cfg True)
          else main_run mgr cfg False))))))"

text \<open>The goroutine, after the election. An error of a scan is logged; a panic would end the process.\<close>

definition elected_recovery :: "'s platform \<Rightarrow> Config \<Rightarrow> bool \<Rightarrow> ('s, error + unit) api_prog" where
  "elected_recovery K cfg hasRestartReconciler = do {
     r \<leftarrow> RecoverOrphans K cfg;
     (if case r of Inl e \<Rightarrow> is_panic e | Inr _ \<Rightarrow> False then ret r
      else if hasRestartReconciler then do {
        r' \<leftarrow> restart_RecoverOrphans K;
        (if case r' of Inl e \<Rightarrow> is_panic e | Inr _ \<Rightarrow> False then ret r' else ret (Inr ()))
      }
      else ret (Inr ()))
   }"

section \<open>Recovery\<close>

text \<open>What a scan of the drain controller does, given the lists it got.\<close>

definition drain_recovery_trace :: "Config \<Rightarrow> error + unit \<Rightarrow> api_call list \<Rightarrow> bool" where
  "drain_recovery_trace cfg r l \<longleftrightarrow> no_panic r \<and>
     patches_ok (\<lambda>wl'. \<exists>nodes. ListNodes (Inr nodes) \<in> set l \<and>
       (\<exists>wl \<in> read_in l. is_orphan (tainted_names cfg nodes) wl \<and> wl' = drain_aborted wl)) l"

lemma emits_RecoverOrphans: "emits (RecoverOrphans K cfg) (drain_recovery_trace cfg)"
  unfolding RecoverOrphans_def Let_def
  by (intro emits_checked emits_client_call emits_mono [OF emits_abort_orphans] case_sumI emits_return)
    (auto simp: drain_recovery_trace_def api_result_Inl_iff patch_ok_def elim!: patches_ok_mono)

definition restart_recovery_trace :: "error + unit \<Rightarrow> api_call list \<Rightarrow> bool" where
  "restart_recovery_trace r l \<longleftrightarrow> no_panic r \<and>
     patches_ok (\<lambda>wl'. \<exists>ro. RolloutWorkload ro \<in> read_in l \<and> restart_orphan ro \<and>
       wl' = restart_aborted (RolloutWorkload ro)) l"

lemma emits_restart_RecoverOrphans: "emits (restart_RecoverOrphans K) restart_recovery_trace"
  unfolding restart_RecoverOrphans_def
  by (intro emits_checked emits_client_call emits_mono [OF emits_restart_abort_orphans] case_sumI emits_return)
    (auto simp: restart_recovery_trace_def api_result_Inl_iff patch_ok_def elim!: patches_ok_mono)

section \<open>Startup\<close>

text \<open>The calls that precede the launch, in order, each as a function of its answer.\<close>

definition startup_steps :: "'s platform \<Rightarrow> Config \<Rightarrow> (error option \<Rightarrow> 's mgr_call) list" where
  "startup_steps K cfg =
     [GetConfigOrDie, NewManager (manager_options cfg), AddHealthzCheck ''healthz'', AddReadyzCheck ''readyz''] @
     node_setup_steps K cfg @
     (if RestartSurgeEnabled cfg then [CompleteController (rollout_controller_spec K cfg)] else [])"

text \<open>What follows them: the launch of the recovery and the run of the manager.\<close>

definition serves :: "Config \<Rightarrow> nat \<Rightarrow> 's mgr_call list \<Rightarrow> bool" where
  "serves cfg code l \<longleftrightarrow> (\<exists>err. l = [GoRecovery cfg (RestartSurgeEnabled cfg), StartManager err] \<and>
     code = (if err = None then 0 else 1))"

lemma emits_main_run:
  "hasRestart = RestartSurgeEnabled cfg \<Longrightarrow>
   emits (main_run mgr cfg hasRestart) (stops_at_failure (serves cfg) (\<lambda>code. code = 1) [])"
  unfolding main_run_def unless_error_def
  by (intro emits_intros stops_at_failure.all_done) (auto simp: serves_def)

lemma emits_main:
  "emits (main mgr K fl) (\<lambda>code l. case Parse fl of
      Inl _ \<Rightarrow> code = 1 \<and> l = []
    | Inr cfg \<Rightarrow> stops_at_failure (serves cfg) (\<lambda>code. code = 1) (startup_steps K cfg) code l)"
proof (cases "Parse fl")
  case (Inl e)
  then show ?thesis by (simp add: main_def emits_return)
next
  case (Inr cfg)
  have rest: "emits (if RestartSurgeEnabled cfg
      then unless_error (restart_SetupWithManager mgr K cfg) (\<lambda>_. 1) (main_run mgr cfg True)
      else main_run mgr cfg False)
    (stops_at_failure (serves cfg) (\<lambda>code. code = 1) (if RestartSurgeEnabled cfg then [CompleteController (rollout_controller_spec K cfg)] else []))"
    by (auto simp del: One_nat_def intro!: emits_main_run emits_steps [OF steps_of_restart_SetupWithManager, where steps' = "[]", simplified])
  have "emits (main mgr K fl) (stops_at_failure (serves cfg) (\<lambda>code. code = 1) (startup_steps K cfg))"
    unfolding main_def startup_steps_def Inr sum.case append.simps
    by (intro emits_step emits_steps steps_of_SetupWithManager rest) simp_all
  then show ?thesis by (simp add: Inr)
qed

section \<open>The wiring of a running process\<close>

text \<open>The index a list by field relies on: the kind listed and the field of its selector.\<close>

fun field_list :: "api_call \<Rightarrow> (api_kind \<times> string) option" where
  "field_list (ListPodsOnNode _ _) = Some (PodKind, IndexPodNodeName)"
| "field_list (ListRolloutsByDrainNode _ _) = Some (RolloutKind, IndexWorkloadDrainNode)"
| "field_list (ListDeploymentsByDrainNode _ _) = Some (DeploymentKind, IndexWorkloadDrainNode)"
| "field_list _ = None"

text \<open>The trace of a process that runs the manager.\<close>

definition serving_calls :: "'s platform \<Rightarrow> Config \<Rightarrow> 's mgr_call list \<Rightarrow> bool" where
  "serving_calls K cfg l \<longleftrightarrow> (\<exists>err. l = map (\<lambda>mk. mk None) (startup_steps K cfg) @
     [GoRecovery cfg (RestartSurgeEnabled cfg), StartManager err])"

lemma startup_not_start: "mk \<in> set (startup_steps K cfg) \<Longrightarrow> StartManager err \<noteq> mk e"
  by (auto simp: startup_steps_def node_setup_steps_def split: if_splits)

lemma emits_main_serving:
  "emits (main mgr K fl) (\<lambda>code l. \<forall>err. StartManager err \<in> set l \<longrightarrow> (\<exists>cfg. serving_calls K cfg l))"
proof (rule emits_mono [OF emits_main], intro allI impI)
  fix code l err
  assume l: "case Parse fl of Inl _ \<Rightarrow> code = 1 \<and> l = []
      | Inr cfg \<Rightarrow> stops_at_failure (serves cfg) (\<lambda>code. code = 1) (startup_steps K cfg) code l"
    and start: "StartManager err \<in> set l"
  then obtain cfg where "stops_at_failure (serves cfg) (\<lambda>code. code = 1) (startup_steps K cfg) code l"
    by (auto split: sum.splits)
  from stops_at_failure_all [OF this] show "\<exists>cfg. serving_calls K cfg l"
  proof (elim disjE exE conjE)
    fix n e assume "n < length (startup_steps K cfg)"
      "l = map (\<lambda>mk. mk None) (take n (startup_steps K cfg)) @ [(startup_steps K cfg ! n) (Some e)]"
    with start startup_not_start [of _ K cfg] show ?thesis by (auto dest: in_set_takeD nth_mem)
  qed (auto simp: serves_def serving_calls_def)
qed

lemmas serving_defs = serving_calls_def startup_steps_def node_setup_steps_def

lemma serving_calls_indexes:
  "serving_calls K cfg l \<Longrightarrow> field_list c = Some (k, field) \<Longrightarrow> \<exists>ix. IndexField k field ix None \<in> set l"
  by (cases c rule: field_list.cases) (auto simp: serving_defs)

lemma serving_calls_watches:
  assumes "serving_calls K cfg l" "CompleteController spec a \<in> set l"
  shows "(k, MapObject f) \<in> set (cs_Watches spec) \<Longrightarrow> IndexField k field (ObjectIndex g) None \<in> set l \<Longrightarrow>
      map req_Name (f obj) = g obj"
    and "(k, MapPod h) \<in> set (cs_Watches spec) \<Longrightarrow> IndexField k field (PodIndex g') None \<in> set l \<Longrightarrow>
      map req_Name (h pod) = g' pod"
  using assms
  by (auto simp: serving_defs node_controller_spec_def rollout_controller_spec_def mapWorkloadToNode_def
      indexByDrainNodeAnnotation_def mapPodToNode_def podNodeNameIndex_def Let_def split: if_splits)

lemma serving_calls_reconciler:
  assumes "serving_calls K cfg l" "CompleteController spec a \<in> set l"
  shows "emits (cs_Reconciler spec req) (\<lambda>_ _. True)"
proof -
  have "spec = node_controller_spec K cfg \<or> spec = rollout_controller_spec K cfg"
    using assms by (auto simp: serving_defs split: if_splits)
  then show ?thesis
    by (auto simp: node_controller_spec_def rollout_controller_spec_def
        intro: emits_mono [OF node_ok_Reconcile] emits_mono [OF restart_ok_Reconcile])
qed

end
