(* ===== verification/MergePatch.thy ===== *)
theory MergePatch
  imports Workload
begin

text \<open>
  What the API server is documented to do with the patches the controllers send: a JSON merge patch
  (RFC 7386) sets the keys it has a value for, deletes those it has a null for and keeps the others.
  The patch carries no resource version, so the server applies it to whatever it holds, not to the
  object the controller had read. The lemmas say what that leaves of the owned annotations.
\<close>

definition merge_annotations :: "(string \<rightharpoonup> string option) \<Rightarrow> annotations option \<Rightarrow> annotations option" where
  "merge_annotations p a =
     Some (\<lambda>k. case p k of None \<Rightarrow> anno_lookup a k | Some v \<Rightarrow> v)"

definition merge_rollout :: "merge_patch \<Rightarrow> Rollout \<Rightarrow> Rollout" where
  "merge_rollout p ro = (ro_SetAnnotations (merge_annotations (patch_annotations p) (Annotations (ro_ObjectMeta ro))) ro)
     \<lparr>ro_Replicas := patch_replicas p\<rparr>"

definition merge_deployment :: "merge_patch \<Rightarrow> Deployment \<Rightarrow> Deployment" where
  "merge_deployment p d = (dep_SetAnnotations (merge_annotations (patch_annotations p) (Annotations (dep_ObjectMeta d))) d)
     \<lparr>dep_Replicas := patch_replicas p\<rparr>"

fun merged :: "merge_patch \<Rightarrow> DrainableWorkload \<Rightarrow> DrainableWorkload" where
  "merged p (RolloutWorkload ro) = RolloutWorkload (merge_rollout p ro)"
| "merged p (DeploymentWorkload d) = DeploymentWorkload (merge_deployment p d)"

lemma wl_annotations_merged [simp]:
  "wl_annotations (merged p wl) = merge_annotations (patch_annotations p) (wl_annotations wl)"
  by (cases wl) (simp_all add: merge_rollout_def merge_deployment_def ro_SetAnnotations_def dep_SetAnnotations_def)

lemma merged_identity [simp]:
  "Name (GetObjectMeta (merged p wl)) = Name (GetObjectMeta wl)"
  "Namespace (GetObjectMeta (merged p wl)) = Namespace (GetObjectMeta wl)"
  "GetObjectKind (merged p wl) = GetObjectKind wl"
  by (cases wl; simp add: merge_rollout_def merge_deployment_def ro_SetAnnotations_def dep_SetAnnotations_def
      ro_GetObjectKind_def dep_GetObjectKind_def)+

lemma spec_replicas_merged [simp]: "spec_replicas (merged p wl) = patch_replicas p"
  by (cases wl) (simp_all add: merge_rollout_def merge_deployment_def)

lemma GetReplicas_spec: "GetReplicas wl = (case spec_replicas wl of None \<Rightarrow> 1 | Some n \<Rightarrow> n)"
  by (cases wl) (simp_all add: ro_GetReplicas_def dep_GetReplicas_def)

lemma GetReplicas_merged [simp]: "GetReplicas (merged (patch_of wl') wl) = GetReplicas wl'"
  by (simp add: GetReplicas_spec patch_of_def)

text \<open>
  The patch of a workload leaves every owned key exactly as that workload has it, whatever the
  server held before.
\<close>

lemma anno_lookup_merge:
  "anno_lookup (merge_annotations (annoPatch a) server) k =
     (if k \<in> set drainAnnotationKeys then anno_lookup a k
      else case anno_lookup a k of Some v \<Rightarrow> Some v | None \<Rightarrow> anno_lookup server k)"
  by (simp add: merge_annotations_def annoPatch_apply split: option.splits)

lemma anno_lookup_merged_owned:
  "k \<in> set drainAnnotationKeys \<Longrightarrow>
     anno_lookup (wl_annotations (merged (patch_of wl') wl)) k = anno_lookup (wl_annotations wl') k"
  by (simp add: patch_of_def anno_lookup_merge)

lemma anno_get_merged_owned:
  "k \<in> set drainAnnotationKeys \<Longrightarrow>
     anno_get (wl_annotations (merged (patch_of wl') wl)) k = anno_get (wl_annotations wl') k"
  by (simp add: anno_get_def anno_lookup_merged_owned del: wl_annotations_merged)

end
