(* ===== verification/History.thy ===== *)
theory History
  imports RolloutProofs MergePatch
begin

text \<open>
  The states a workload can get into on the server: a controller's writes interleaved with changes by
  other actors (users, autoscalers, Argo, the other controller) that leave the annotations it owns as
  they are. A write is made from an object the controller has read, perhaps long ago or from a stale
  cache, and the server merges it into the object it holds by then. The locale \<open>surge_controller\<close> proves
  the invariant of these states once; the drain and the restart controller interpret it with what
  their reconciles write.
\<close>

inductive history ::
  "string \<Rightarrow> string list \<Rightarrow> (DrainableWorkload \<Rightarrow> DrainableWorkload \<Rightarrow> bool) \<Rightarrow> DrainableWorkload \<Rightarrow> bool"
  for key owned write_of where
  fresh: "anno_get (wl_annotations wl) key = '''' \<Longrightarrow> history key owned write_of wl"
| written: "history key owned write_of seen \<Longrightarrow> history key owned write_of current \<Longrightarrow> write_of seen wl' \<Longrightarrow>
    history key owned write_of (merged (patch_of wl') current)"
| outside: "history key owned write_of wl \<Longrightarrow>
    (\<And>k. k \<in> set owned \<Longrightarrow> anno_lookup (wl_annotations wl') k = anno_lookup (wl_annotations wl) k) \<Longrightarrow>
    history key owned write_of wl'"

locale surge_controller = surge_writer +
  fixes write_of :: "DrainableWorkload \<Rightarrow> DrainableWorkload \<Rightarrow> bool"
  assumes write_step: "write_of wl wl' \<Longrightarrow> surge_write may_yield key sets owned wl wl'"
begin

text \<open>A change that keeps the owned annotations keeps the bookkeeping part of the view.\<close>

lemma view_outside:
  assumes "\<And>k. k \<in> set owned \<Longrightarrow> anno_lookup (wl_annotations wl') k = anno_lookup (wl_annotations wl) k"
  shows "sv_phase (view key wl') = sv_phase (view key wl)" "sv_original (view key wl') = sv_original (view key wl)"
proof -
  show "sv_phase (view key wl') = sv_phase (view key wl)"
    using assms [OF key_owned] by (simp add: anno_get_def)
  have "getOriginalReplicas (wl_annotations wl') = getOriginalReplicas (wl_annotations wl)"
    using assms [OF bookkeeping_owned(1)] by (rule getOriginalReplicas_cong)
  then show "sv_original (view key wl') = sv_original (view key wl)" by simp
qed

lemma history_inv: "history key owned write_of wl \<Longrightarrow> surge_inv (view key wl)"
proof (induction rule: history.induct)
  case (fresh wl)
  then show ?case by (simp add: surge_inv_def)
next
  case (written seen current wl')
  have "surge_inv (view key wl')"
    using write_step [OF written.hyps(3)] written.IH(1) by (auto simp: surge_write_def intro: surge_inv_step)
  moreover have "anno_lookup (wl_annotations (merged (patch_of wl') current)) k = anno_lookup (wl_annotations wl') k"
    if "k \<in> set owned" for k
    using that owned_drain by (intro anno_lookup_merged_owned) auto
  ultimately show ?case using view_outside [of "merged (patch_of wl') current" wl']
    by (auto simp: surge_inv_def simp del: view_sel)
next
  case (outside wl wl')
  then show ?case using view_outside [of wl' wl] by (auto simp: surge_inv_def simp del: view_sel)
qed

text \<open>Wherever the history has led, the phase is one the machine knows and an abort restores one replica.\<close>

lemma history_abort:
  assumes "history key owned write_of wl" "anno_get (wl_annotations wl) key \<noteq> ''''"
  shows "anno_get (wl_annotations wl) key \<in> {DrainStateScaledUp, DrainStateReady, DrainStateDraining, DrainStateDone} \<and>
    getOriginalReplicas (wl_annotations wl) = Inr 1 \<and> GetReplicas (aborted clear wl) = 1"
  using history_inv [OF assms(1)] assms(2)
  by (auto simp: surge_inv_def aborted_def restored_def split: sum.splits)

end

section \<open>The two controllers\<close>

text \<open>\<open>wl'\<close> is an object some reconcile of \<open>wl\<close> patches, in some world, for some node.\<close>

definition drain_may_write :: "'s platform \<Rightarrow> Config \<Rightarrow> DrainableWorkload \<Rightarrow> DrainableWorkload \<Rightarrow> bool" where
  "drain_may_write K cfg wl wl' \<longleftrightarrow>
     (\<exists>nodeName w l p a. trace (snd (run_state (reconcileWorkload K cfg wl nodeName) w)) = trace w @ l \<and>
        PatchObject (Object wl') p a \<in> set l)"

definition restart_may_write ::
  "'s platform \<Rightarrow> Config \<Rightarrow> ('s, Time) state option \<Rightarrow> DrainableWorkload \<Rightarrow> DrainableWorkload \<Rightarrow> bool" where
  "restart_may_write K cfg now wl wl' \<longleftrightarrow>
     (\<exists>ro w l p a. wl = RolloutWorkload ro \<and>
        trace (snd (run_state (restart_reconcileWorkload K cfg now ro) w)) = trace w @ l \<and>
        PatchObject (Object wl') p a \<in> set l)"

lemma emits_patched:
  assumes "emits m (\<lambda>r l. patches_ok P l)" "trace (snd (run_state m w)) = trace w @ l"
    "PatchObject (Object wl') p a \<in> set l"
  shows "P wl'"
  using patches_ok_in [OF emits_trace [OF assms(1,2)] assms(3)] by auto

interpretation drain_run: surge_controller AnnotationDrainState False drain_sets drainAnnotationKeys
  clearDrainAnnotations "drain_may_write K cfg" for K :: "'s platform" and cfg
proof unfold_locales
  fix wl wl' assume "drain_may_write K cfg wl wl'"
  moreover have "emits (reconcileWorkload K cfg wl n) (\<lambda>r l. patches_ok (drain_write wl) l)" for n
    by (rule emits_mono [OF drain_ok_reconcileWorkload]) (simp add: drain_ok_def)
  ultimately show "drain_write wl wl'"
    unfolding drain_may_write_def by (blast dest: emits_patched)
qed

interpretation restart_run: surge_controller AnnotationRestartSurgeState True restartSurgeFullKeys restartSurgeFullKeys
  clearRestartSurgeAnnotations "restart_may_write K cfg now" for K :: "'s platform" and cfg now
proof unfold_locales
  fix wl wl' assume "restart_may_write K cfg now wl wl'"
  then obtain ro w l p a where wl: "wl = RolloutWorkload ro" and
    run: "trace (snd (run_state (restart_reconcileWorkload K cfg now ro) w)) = trace w @ l"
      "PatchObject (Object wl') p a \<in> set l"
    unfolding restart_may_write_def by blast
  have "emits (restart_reconcileWorkload K cfg now ro)
      (\<lambda>r l. patches_ok (restart_write (RolloutWorkload ro)) l)"
    by (rule emits_mono [OF restart_ok_reconcileWorkload]) (simp add: restart_ok_def)
  from emits_patched [OF this run] show "restart_write wl wl'"
    unfolding wl .
qed

end
