(* ===== verification/JointHistory.thy ===== *)
theory JointHistory
  imports History ControllerMain Runs
begin

text \<open>
  The whole process on the workloads of a cluster. Its programs (the reconcile of a node, the request for
  a Rollout, the recovery after the election) share the annotations for the original replica count
  and the autoscaler, and none locks an object, so their writes interleave, each made from a possibly
  stale read. Whatever they do, the record of the original count reads one or is gone together with the
  autoscaler's name. It is there while an operation is under way, unless a restart surge was aborted
  in the middle of a drain: the abort removes the record that the drain still needs.
\<close>

section \<open>The programs of the process and what they write\<close>

datatype entry = NodeRequest string | RolloutRequest Request | Elected bool

text \<open>\<open>l\<close> are the calls of some run of the program.\<close>

fun entry_ran :: "'s platform \<Rightarrow> Config \<Rightarrow> ('s, Time) state option \<Rightarrow> entry \<Rightarrow> api_call list \<Rightarrow> bool" where
  "entry_ran K cfg now (NodeRequest n) l \<longleftrightarrow> (\<exists>r. ran (Reconcile K cfg n) r l)"
| "entry_ran K cfg now (RolloutRequest req) l \<longleftrightarrow> (\<exists>r. ran (restart_Reconcile K cfg now req) r l)"
| "entry_ran K cfg now (Elected hasRestart) l \<longleftrightarrow> (\<exists>r. ran (elected_recovery K cfg hasRestart) r l)"

text \<open>The abort of a restart surge in the middle of a drain: by the overrun check or by the recovery.\<close>

definition strands_drain :: "DrainableWorkload \<Rightarrow> DrainableWorkload \<Rightarrow> bool" where
  "strands_drain wl wl' \<longleftrightarrow> drain_state wl \<noteq> '''' \<and> restart_state wl \<noteq> '''' \<and> wl' = restart_aborted wl"

inductive process_write :: "DrainableWorkload \<Rightarrow> DrainableWorkload \<Rightarrow> bool" for wl where
  drain: "drain_write wl wl' \<Longrightarrow> process_write wl wl'"
| clear: "process_write wl (drain_aborted wl)"
| restart: "drain_state wl = '''' \<Longrightarrow> restart_write wl wl' \<Longrightarrow> process_write wl wl'"
| yield: "restart_write wl (yielded wl) \<Longrightarrow> process_write wl (yielded wl)"
| strand: "strands_drain wl wl' \<Longrightarrow> process_write wl wl'"

lemma restart_aborted_write: "restart_state wl \<noteq> '''' \<Longrightarrow> process_write wl (restart_aborted wl)"
  using process_write.restart restart.write_aborted process_write.strand by (cases "drain_state wl = ''''") (auto simp: strands_drain_def)

lemma process_restart_reconcileWorkload:
  "emits (restart_reconcileWorkload K cfg now ro) (\<lambda>r l. patches_ok (process_write (RolloutWorkload ro)) l)"
proof (rule emits_restart_reconcileWorkload, goal_cases)
  case (1 t ev r l)
  then show ?case
    by (auto simp: restart_expired_def intro!: abort_trace_patches restart_aborted_write simp del: GetObjectMeta.simps)
next
  case (2 pre)
  then show ?case
    unfolding yieldToDrain_eq
    by (intro case_vc emits_intros case_sumI)
      (auto simp: restart_prefix_patches intro!: process_write.yield write_yielded simp del: GetObjectMeta.simps Object.simps)
next
  case (4 pre)
  then show ?case
    by (intro emits_mono [OF restart_ok_dispatch])
      (auto simp: restart_ok_def restart_prefix_patches elim!: patches_ok_mono intro: process_write.restart simp del: GetObjectMeta.simps)
qed simp

abbreviation process_writes :: "api_call list \<Rightarrow> bool" where
  "process_writes l \<equiv> patches_ok (\<lambda>wl'. \<exists>wl \<in> read_in l. process_write wl wl') l"

lemma process_restart_Reconcile: "emits (restart_Reconcile K cfg now req) (\<lambda>r l. process_writes l)"
  unfolding restart_Reconcile_def
  by (intro emits_intros emits_mono [OF process_restart_reconcileWorkload])
    (auto simp: patch_ok_def elim!: patches_ok_mono)

lemma process_Reconcile: "emits (Reconcile K cfg n) (\<lambda>r l. process_writes l)"
  by (rule emits_mono [OF node_ok_Reconcile], elim conjE, erule patches_ok_mono)
    (auto simp: node_write_def intro: process_write.drain process_write.clear split: if_splits)

lemma process_RecoverOrphans: "emits (RecoverOrphans K cfg) (\<lambda>r l. process_writes l)"
  by (rule emits_mono [OF emits_RecoverOrphans])
    (auto simp: drain_recovery_trace_def intro: process_write.clear elim!: patches_ok_mono)

lemma process_restart_RecoverOrphans: "emits (restart_RecoverOrphans K) (\<lambda>r l. process_writes l)"
proof (rule emits_mono [OF emits_restart_RecoverOrphans])
  fix r l assume "restart_recovery_trace r l"
  then have "patches_ok (\<lambda>wl'. \<exists>wl \<in> read_in l. restart_state wl \<noteq> '''' \<and> wl' = restart_aborted wl) l"
    unfolding restart_recovery_trace_def restart_orphan_def
    by (elim conjE, elim patches_ok_mono) blast
  then show "process_writes l" by (rule patches_ok_mono) (use restart_aborted_write in blast)
qed

lemma process_elected_recovery: "emits (elected_recovery K cfg hasRestart) (\<lambda>r l. process_writes l)"
  unfolding elected_recovery_def
  by (intro emits_bind emits_if emits_return emits_mono [OF process_RecoverOrphans]
      emits_mono [OF process_restart_RecoverOrphans]) (auto elim!: patches_ok_mono)

lemma entry_writes: "entry_ran K cfg now e l \<Longrightarrow> process_writes l"
  by (cases e) (auto dest: ranD [OF process_Reconcile] ranD [OF process_restart_Reconcile] ranD [OF process_elected_recovery])

lemma entry_write_of:
  assumes "entry_ran K cfg now e l" "PatchObject (Object wl') p a \<in> set l"
  shows "p = patch_of wl'" "\<exists>wl \<in> read_in l. process_write wl wl'"
  using patches_ok_in [OF entry_writes [OF assms(1)] assms(2)] by auto

section \<open>The states a workload can get into\<close>

text \<open>
  A workload starts with none of the owned annotations. A write is made by a run of one of the programs
  all of whose reads are objects with such a history, and the server merges it into the object it holds
  by then; others may change anything but the owned annotations. A \<open>calm\<close> history is one in which no
  restart surge is aborted in the middle of a drain.
\<close>

inductive process_history ::
  "'s platform \<Rightarrow> Config \<Rightarrow> ('s, Time) state option \<Rightarrow> bool \<Rightarrow> DrainableWorkload \<Rightarrow> bool"
  for K cfg now calm where
  fresh: "(\<And>k. k \<in> set drainAnnotationKeys \<Longrightarrow> anno_lookup (wl_annotations wl) k = None) \<Longrightarrow>
    process_history K cfg now calm wl"
| written: "entry_ran K cfg now e l \<Longrightarrow> (\<And>seen. seen \<in> read_in l \<Longrightarrow> process_history K cfg now calm seen) \<Longrightarrow>
    process_history K cfg now calm current \<Longrightarrow> PatchObject (Object wl') p a \<in> set l \<Longrightarrow>
    (calm \<Longrightarrow> \<not> (\<exists>seen \<in> read_in l. strands_drain seen wl')) \<Longrightarrow>
    process_history K cfg now calm (merged p current)"
| outside: "process_history K cfg now calm wl \<Longrightarrow>
    (\<And>k. k \<in> set drainAnnotationKeys \<Longrightarrow>
       anno_lookup (wl_annotations wl') k = anno_lookup (wl_annotations wl) k) \<Longrightarrow>
    process_history K cfg now calm wl'"

section \<open>While the record is kept\<close>

definition joint_inv :: "DrainableWorkload \<Rightarrow> bool" where
  "joint_inv wl \<longleftrightarrow> surge_inv (view AnnotationDrainState wl) \<and> surge_inv (view AnnotationRestartSurgeState wl)"

lemma surge_inv_cong:
  assumes "anno_lookup (wl_annotations wl') key = anno_lookup (wl_annotations wl) key"
    "anno_lookup (wl_annotations wl') AnnotationOriginalReplicas = anno_lookup (wl_annotations wl) AnnotationOriginalReplicas"
  shows "surge_inv (view key wl') = surge_inv (view key wl)"
proof -
  have "getOriginalReplicas (wl_annotations wl') = getOriginalReplicas (wl_annotations wl)"
    using assms(2) by (rule getOriginalReplicas_cong)
  with assms(1) show ?thesis by (simp add: surge_inv_def anno_get_def)
qed

lemma surge_inv_original:
  "surge_inv (view key wl) \<Longrightarrow> anno_get (wl_annotations wl) key \<noteq> '''' \<Longrightarrow> getOriginalReplicas (wl_annotations wl) = Inr 1"
  by (auto simp: surge_inv_def split: sum.splits)

text \<open>A drain write keeps the restart state, and with it the record it needs, or clears both machines.\<close>

lemma joint_inv_drain:
  assumes "drain_write wl wl'" "joint_inv wl"
  shows "joint_inv wl'"
proof -
  have drain: "surge_inv (view AnnotationDrainState wl')"
    using assms surge_inv_step by (auto simp: surge_write_def joint_inv_def)
  have "surge_inv (view AnnotationRestartSurgeState wl')"
  proof (cases "cleared drainAnnotationKeys (wl_annotations wl) (wl_annotations wl')")
    case True
    then have "restart_state wl' = ''''" by (simp add: cleared_def anno_get_def)
    then show ?thesis by (simp add: surge_inv_def)
  next
    case False
    with assms(1) have active: "drain_state wl' \<noteq> ''''"
      and kept: "keeps drain_sets (wl_annotations wl) (wl_annotations wl')"
      by (auto simp: surge_write_def same_identity_def)
    from kept have same: "restart_state wl' = restart_state wl" by (simp add: keeps_def anno_get_def)
    from surge_inv_original [OF drain active] have "getOriginalReplicas (wl_annotations wl') = Inr 1" .
    with assms(2) show ?thesis by (auto simp: joint_inv_def surge_inv_def same)
  qed
  with drain show ?thesis by (simp add: joint_inv_def)
qed

text \<open>A restart write with no drain under way leaves the drain state empty; a yield keeps the record.\<close>

lemma restart_write_drain_state: "restart_write wl wl' \<Longrightarrow> drain_state wl' = drain_state wl"
  by (auto simp: surge_write_def same_identity_def keeps_def cleared_def anno_get_def)

lemma yielded_lookup:
  "anno_lookup (wl_annotations (yielded wl)) k =
     (if k \<in> set restartSurgeExclusiveKeys then None else anno_lookup (wl_annotations wl) k)"
  by (simp add: yielded_def)

lemma joint_inv_restart:
  assumes "restart_write wl wl'" "joint_inv wl" "drain_state wl = '''' \<or> wl' = yielded wl"
  shows "joint_inv wl'"
proof -
  have "surge_inv (view AnnotationDrainState wl')"
  proof (cases "drain_state wl = ''''")
    case True
    with restart_write_drain_state [OF assms(1)] show ?thesis by (simp add: surge_inv_def)
  next
    case False
    with assms(3) have "wl' = yielded wl" by simp
    then have "surge_inv (view AnnotationDrainState wl') = surge_inv (view AnnotationDrainState wl)"
      by (intro surge_inv_cong) (simp_all add: yielded_lookup)
    with assms(2) show ?thesis by (simp add: joint_inv_def)
  qed
  moreover have "surge_inv (view AnnotationRestartSurgeState wl')"
    using assms(1,2) surge_inv_step by (auto simp: surge_write_def joint_inv_def)
  ultimately show ?thesis by (simp add: joint_inv_def)
qed

section \<open>The record of every history\<close>

definition known_states :: "DrainState set" where
  "known_states = {'''', DrainStateScaledUp, DrainStateReady, DrainStateDraining, DrainStateDone}"

definition record_ok :: "DrainableWorkload \<Rightarrow> bool" where
  "record_ok wl \<longleftrightarrow> getOriginalReplicas (wl_annotations wl) = Inr 1 \<or>
     isl (getOriginalReplicas (wl_annotations wl)) \<and> anno_get (wl_annotations wl) AnnotationHPAName = ''''"

definition process_inv :: "DrainableWorkload \<Rightarrow> bool" where
  "process_inv wl \<longleftrightarrow> drain_state wl \<in> known_states \<and> restart_state wl \<in> known_states \<and> record_ok wl"

lemma surge_record_view:
  "surge_record (view key wl) \<longleftrightarrow> anno_get (wl_annotations wl) key \<in> known_states \<and> record_ok wl"
  by (auto simp: surge_record_def known_states_def record_ok_def split: sum.splits)

lemma process_inv_views:
  "process_inv wl \<longleftrightarrow> surge_record (view AnnotationDrainState wl) \<and> surge_record (view AnnotationRestartSurgeState wl)"
  by (auto simp: process_inv_def surge_record_view)

text \<open>The invariants depend on owned annotations only.\<close>

lemma owned_get_cong:
  assumes "\<And>k. k \<in> set drainAnnotationKeys \<Longrightarrow> anno_lookup (wl_annotations wl') k = anno_lookup (wl_annotations wl) k"
  shows "drain_state wl' = drain_state wl" "restart_state wl' = restart_state wl"
    "anno_get (wl_annotations wl') AnnotationHPAName = anno_get (wl_annotations wl) AnnotationHPAName"
    "getOriginalReplicas (wl_annotations wl') = getOriginalReplicas (wl_annotations wl)"
  using assms by (auto simp: anno_get_def intro!: getOriginalReplicas_cong)

lemma process_inv_cong:
  assumes "\<And>k. k \<in> set drainAnnotationKeys \<Longrightarrow> anno_lookup (wl_annotations wl') k = anno_lookup (wl_annotations wl) k"
  shows "process_inv wl' = process_inv wl" "joint_inv wl' = joint_inv wl"
  using owned_get_cong [OF assms] by (simp_all add: process_inv_def record_ok_def joint_inv_def surge_inv_def)

lemma process_inv_merged:
  "process_inv (merged (patch_of wl') current) = process_inv wl'" "joint_inv (merged (patch_of wl') current) = joint_inv wl'"
  by (rule process_inv_cong, rule anno_lookup_merged_owned, assumption)+

text \<open>With all owned annotations gone, both machines are idle and the record is empty.\<close>

lemma cleared_inv:
  assumes "\<And>k. k \<in> set drainAnnotationKeys \<Longrightarrow> anno_lookup (wl_annotations wl) k = None"
  shows "process_inv wl" "joint_inv wl"
proof -
  have "isl (getOriginalReplicas (wl_annotations wl))" by (simp add: getOriginalReplicas_def assms)
  then show "process_inv wl" "joint_inv wl"
    by (simp_all add: process_inv_def joint_inv_def record_ok_def surge_inv_def known_states_def anno_get_def assms)
qed

lemma drain_write_restart_state: "drain_write wl wl' \<Longrightarrow> restart_state wl' \<in> {restart_state wl, ''''}"
  by (auto simp: surge_write_def same_identity_def keeps_def cleared_def anno_get_def)

lemma process_inv_drain: "drain_write wl wl' \<Longrightarrow> process_inv wl \<Longrightarrow> process_inv wl'"
  using drain_write_restart_state [of wl wl'] surge_record_step [of False "view AnnotationDrainState wl" "view AnnotationDrainState wl'"]
  by (auto simp: process_inv_def surge_record_view surge_write_def known_states_def)

lemma process_inv_restart: "restart_write wl wl' \<Longrightarrow> process_inv wl \<Longrightarrow> process_inv wl'"
  using restart_write_drain_state [of wl wl'] surge_record_step [of True "view AnnotationRestartSurgeState wl" "view AnnotationRestartSurgeState wl'"]
  by (auto simp: process_inv_def surge_record_view surge_write_def)

lemma drain_aborted_owned:
  "k \<in> set drainAnnotationKeys \<Longrightarrow> anno_lookup (wl_annotations (drain_aborted wl)) k = None"
  by (simp add: aborted_def clearDrainAnnotations_def)

lemma strands_drain_write: "strands_drain wl wl' \<Longrightarrow> restart_write wl wl'"
  using restart.write_aborted by (auto simp: strands_drain_def)

lemma process_inv_write:
  assumes "process_write wl wl'" "process_inv wl"
  shows "process_inv wl'"
  using assms
proof cases
  case clear
  show ?thesis unfolding clear by (rule cleared_inv) (rule drain_aborted_owned)
qed (use assms(2) in \<open>auto intro: process_inv_drain process_inv_restart strands_drain_write\<close>)

lemma joint_inv_write:
  assumes "process_write wl wl'" "joint_inv wl" "\<not> strands_drain wl wl'"
  shows "joint_inv wl'"
  using assms(1)
proof cases
  case clear
  show ?thesis unfolding clear by (rule cleared_inv) (rule drain_aborted_owned)
qed (use assms(2,3) in \<open>auto intro: joint_inv_drain joint_inv_restart\<close>)

lemma process_history_inv: "process_history K cfg now calm wl \<Longrightarrow> process_inv wl \<and> (calm \<longrightarrow> joint_inv wl)"
proof (induction rule: process_history.induct)
  case (fresh wl)
  then show ?case using cleared_inv by blast
next
  case (written e l current wl' p a)
  from entry_write_of [OF written.hyps(1,4)] obtain wl where wl: "p = patch_of wl'" "wl \<in> read_in l" "process_write wl wl'"
    by blast
  with written.IH(1) [OF wl(2)] written.hyps(5) show ?case
    using process_inv_write joint_inv_write by (auto simp: process_inv_merged)
next
  case (outside wl wl')
  then show ?case using process_inv_cong by blast
qed

text \<open>
  What the process writes keeps the identity and the count of the workload it was made from, or sets one or
  two replicas; once the record is lost, a write of the drain controller ends the operation.
\<close>

definition same_object :: "DrainableWorkload \<Rightarrow> DrainableWorkload \<Rightarrow> bool" where
  "same_object wl wl' \<longleftrightarrow> Name (GetObjectMeta wl') = Name (GetObjectMeta wl) \<and>
     Namespace (GetObjectMeta wl') = Namespace (GetObjectMeta wl) \<and> GetObjectKind wl' = GetObjectKind wl"

lemma surge_write_bound:
  assumes "surge_write y key sets owned wl wl'" "surge_record (view key wl)"
  shows "same_object wl wl' \<and> GetReplicas wl' \<in> {GetReplicas wl, 1, 2}"
  using surge_record_replicas [of y "view key wl" "view key wl'"] assms
  by (simp add: surge_write_def same_identity_def same_object_def)

lemma process_write_bound:
  assumes "process_write wl wl'" "process_inv wl"
  shows "same_object wl wl' \<and> GetReplicas wl' \<in> {GetReplicas wl, 1, 2}"
  using assms(1)
proof cases
  case clear
  then show ?thesis using assms(2)
    by (auto simp: process_inv_def record_ok_def same_object_def aborted_def restored_def split: sum.splits)
next
  case strand
  then show ?thesis using assms(2) surge_write_bound strands_drain_write unfolding process_inv_views by blast
qed (use assms(2) surge_write_bound in \<open>unfold process_inv_views, blast+\<close>)

lemma drain_write_lost:
  assumes "drain_write wl wl'" "process_inv wl" "drain_state wl \<noteq> ''''" "isl (getOriginalReplicas (wl_annotations wl))"
  shows "drain_state wl' = '''' \<and> GetReplicas wl' = GetReplicas wl"
proof -
  have "sv_original (view AnnotationDrainState wl) = None" using assms(4) by (cases "getOriginalReplicas (wl_annotations wl)") simp_all
  then show ?thesis
    using surge_record_lost [of False "view AnnotationDrainState wl" "view AnnotationDrainState wl'"] assms(1-3)
    by (auto simp: process_inv_views surge_write_def)
qed

lemma process_write_lost:
  assumes "process_write wl wl'" "process_inv wl" "drain_state wl \<noteq> ''''" "isl (getOriginalReplicas (wl_annotations wl))"
  shows "GetReplicas wl' = GetReplicas wl \<and> drain_state wl' \<in> {drain_state wl, ''''}"
  using assms(1)
proof cases
  case drain
  then show ?thesis using drain_write_lost assms(2-4) by simp
next
  case clear
  have "drain_state (drain_aborted wl) = ''''" by (simp add: anno_get_def drain_aborted_owned)
  with clear assms(4) show ?thesis by (auto simp: aborted_def restored_def split: sum.splits)
next
  case restart
  with assms(3) show ?thesis by simp
next
  case yield
  with assms(4) restart_write_drain_state [of wl wl'] show ?thesis by (auto simp: yielded_def restored_def split: sum.splits)
next
  case strand
  with assms(4) restart_write_drain_state [OF strands_drain_write] show ?thesis
    by (auto simp: strands_drain_def aborted_def restored_def split: sum.splits)
qed

end
