(* ===== verification/Scenario.thy ===== *)
theory Scenario
  imports ControllerMain JointHistory
begin

text \<open>
  A small executable cluster: a concrete platform that stores objects and answers calls the way the
  API server documents them (a merge patch sets the keys it names and deletes those it nulls, a
  missing object is \<open>NotFound\<close>). The theorems hold for every platform; this one shows, by
  evaluation, that their hypotheses are met by real runs of the controllers.
\<close>

section \<open>The cluster\<close>

record cluster =
  c_now :: Time
  c_nodes :: "Node list"
  c_rollouts :: "Rollout list"
  c_deployments :: "Deployment list"
  c_replicasets :: "ReplicaSet list"
  c_pods :: "Pod list"
  c_pdbs :: "PodDisruptionBudget list"
  c_hpas :: "HorizontalPodAutoscaler list"

definition not_found :: api_error where
  "not_found = \<lparr>status_reason = ''NotFound'', status_message = ''''\<rparr>"

definition query :: "(cluster \<Rightarrow> 'a) \<Rightarrow> (cluster, 'a) state" where
  "query f = State (\<lambda>c. (f c, c))"

definition found :: "'a option \<Rightarrow> api_error + 'a" where
  "found x = (case x of None \<Rightarrow> Inl not_found | Some v \<Rightarrow> Inr v)"

definition named :: "string \<Rightarrow> string \<Rightarrow> ObjectMeta \<Rightarrow> bool" where
  "named ns n m \<longleftrightarrow> Namespace m = ns \<and> Name m = n"

definition replace_first :: "('a \<Rightarrow> bool) \<Rightarrow> 'a \<Rightarrow> 'a list \<Rightarrow> 'a list" where
  "replace_first P y xs = map (\<lambda>x. if P x then y else x) xs"

definition sim_patch :: "client_Object \<Rightarrow> merge_patch \<Rightarrow> (cluster, api_error + client_Object) state" where
  "sim_patch obj p = State (\<lambda>c.
     let m = object_meta obj in
     case obj of
       RolloutObject _ \<Rightarrow>
         (case List.find (\<lambda>x. named (Namespace m) (Name m) (ro_ObjectMeta x)) (c_rollouts c) of
            None \<Rightarrow> (Inl not_found, c)
          | Some x \<Rightarrow> let y = merge_rollout p x in
              (Inr (RolloutObject y),
               c\<lparr>c_rollouts := replace_first (\<lambda>x. named (Namespace m) (Name m) (ro_ObjectMeta x)) y (c_rollouts c)\<rparr>))
     | DeploymentObject _ \<Rightarrow>
         (case List.find (\<lambda>x. named (Namespace m) (Name m) (dep_ObjectMeta x)) (c_deployments c) of
            None \<Rightarrow> (Inl not_found, c)
          | Some x \<Rightarrow> let y = merge_deployment p x in
              (Inr (DeploymentObject y),
               c\<lparr>c_deployments := replace_first (\<lambda>x. named (Namespace m) (Name m) (dep_ObjectMeta x)) y (c_deployments c)\<rparr>)))"

definition sim_patch_hpa :: "string \<Rightarrow> string \<Rightarrow> int32 \<Rightarrow> (cluster, api_error + unit) state" where
  "sim_patch_hpa ns n k = State (\<lambda>c.
     if list_ex (\<lambda>h. named ns n (hpa_ObjectMeta h)) (c_hpas c)
     then (Inr (), c\<lparr>c_hpas := map (\<lambda>h. if named ns n (hpa_ObjectMeta h) then h\<lparr>hpa_MinReplicas := Some k\<rparr> else h) (c_hpas c)\<rparr>)
     else (Inl not_found, c))"

definition anno_is :: "string \<Rightarrow> string \<Rightarrow> ObjectMeta \<Rightarrow> bool" where
  "anno_is k v m \<longleftrightarrow> anno_get (Annotations m) k = v"

definition sim :: "cluster platform" where
  "sim = \<lparr>
     pf_GetNode = \<lambda>n. query (\<lambda>c. found (List.find (\<lambda>x. node_Name x = n) (c_nodes c))),
     pf_GetReplicaSet = \<lambda>ns n. query (\<lambda>c. found (List.find (\<lambda>x. named ns n (rs_ObjectMeta x)) (c_replicasets c))),
     pf_GetRollout = \<lambda>ns n. query (\<lambda>c. found (List.find (\<lambda>x. named ns n (ro_ObjectMeta x)) (c_rollouts c))),
     pf_GetDeployment = \<lambda>ns n. query (\<lambda>c. found (List.find (\<lambda>x. named ns n (dep_ObjectMeta x)) (c_deployments c))),
     pf_ListPodsOnNode = \<lambda>n. query (\<lambda>c. Inr (filter (\<lambda>p. pod_NodeName p = n) (c_pods c))),
     pf_ListMatchingPods = \<lambda>ns sel. query (\<lambda>c. Inr (filter (\<lambda>p. Namespace (pod_ObjectMeta p) = ns) (c_pods c))),
     pf_ListRolloutsByDrainNode = \<lambda>n. query (\<lambda>c. Inr (filter (\<lambda>x. anno_is AnnotationDrainNode n (ro_ObjectMeta x)) (c_rollouts c))),
     pf_ListDeploymentsByDrainNode = \<lambda>n. query (\<lambda>c. Inr (filter (\<lambda>x. anno_is AnnotationDrainNode n (dep_ObjectMeta x)) (c_deployments c))),
     pf_ListNodes = query (\<lambda>c. Inr (c_nodes c)),
     pf_ListRollouts = query (\<lambda>c. Inr (c_rollouts c)),
     pf_ListDeployments = query (\<lambda>c. Inr (c_deployments c)),
     pf_ListPDBs = \<lambda>ns. query (\<lambda>c. Inr (c_pdbs c)),
     pf_ListHPAs = \<lambda>ns. query (\<lambda>c. Inr (filter (\<lambda>h. Namespace (hpa_ObjectMeta h) = ns) (c_hpas c))),
     pf_Patch = sim_patch,
     pf_PatchHPA = sim_patch_hpa,
     pf_Event = \<lambda>_ _. State_Monad.return (),
     pf_Now = query c_now,
     pf_range_order = id,
     pf_LabelSelectorAsSelector = \<lambda>ls. Inr (Requirements_Selector
       (map (\<lambda>(k, v). \<lparr>req_key = k, req_operator = ''='', req_strValues = [v]\<rparr>) (MatchLabels ls))),
     pf_Requirements = \<lambda>sel. (case sel of Nothing_Selector \<Rightarrow> ([], False) | Requirements_Selector rs \<Rightarrow> (rs, True)),
     pf_Requirement_String = \<lambda>r. req_key r @ req_operator r @ concat (req_strValues r),
     pf_Nothing = Nothing_Selector\<rparr>"

section \<open>Objects\<close>

definition t0 :: Time where
  "t0 = 63856000000 * nanos"

definition demo_meta :: "string \<Rightarrow> annotations option \<Rightarrow> OwnerReference list \<Rightarrow> ObjectMeta" where
  "demo_meta n a owners = \<lparr>Name = n, Namespace = ''shop'', Annotations = a, OwnerReferences = owners,
     CreationTimestamp = t0 - 1000 * nanos, DeletionTimestamp = None, Generation = 1\<rparr>"

definition demo_selector :: LabelSelector where
  "demo_selector = \<lparr>MatchLabels = [(''app'', ''web'')], MatchExpressions = []\<rparr>"

definition demo_deployment :: Deployment where
  "demo_deployment = \<lparr>dep_ObjectMeta = demo_meta ''web'' (Some [AnnotationEnabled \<mapsto> ''true'', ''team'' \<mapsto> ''a'']) [],
     dep_Replicas = Some 1, dep_Selector = Some demo_selector, dep_StrategyType = ''RollingUpdate'',
     dep_Conditions = [], dep_ObservedGeneration = 1\<rparr>"

definition demo_rollout :: Rollout where
  "demo_rollout = \<lparr>ro_ObjectMeta = demo_meta ''web'' (Some [AnnotationEnabled \<mapsto> ''true'', ''team'' \<mapsto> ''a'']) [],
     ro_Replicas = Some 1, ro_Selector = Some demo_selector, ro_RestartAt = Some (t0 - 500 * nanos),
     ro_Phase = ''Healthy'', ro_Message = '''', ro_RestartedAt = None\<rparr>"

definition demo_pod :: "string \<Rightarrow> string \<Rightarrow> Pod" where
  "demo_pod n node = \<lparr>pod_ObjectMeta = demo_meta n None
       [\<lparr>ref_APIVersion = ''apps/v1'', ref_Kind = ''ReplicaSet'', ref_Name = ''web-rs''\<rparr>],
     pod_NodeName = node, pod_Phase = ''Running'',
     pod_Conditions = [\<lparr>cond_Type = ''Ready'', cond_Status = ''True'', cond_Reason = ''''\<rparr>]\<rparr>"

definition demo_hpa :: HorizontalPodAutoscaler where
  "demo_hpa = \<lparr>hpa_ObjectMeta = demo_meta ''web-hpa'' None [], hpa_ScaleTargetKind = ''Deployment'',
     hpa_ScaleTargetName = ''web'', hpa_MinReplicas = Some 1, hpa_MaxReplicas = 5\<rparr>"

definition demo_cluster :: cluster where
  "demo_cluster = \<lparr>c_now = t0,
     c_nodes = [\<lparr>node_Name = ''n1'', node_Taints = [\<lparr>taint_Key = ''karpenter.sh/disrupted'', taint_Effect = ''NoSchedule''\<rparr>]\<rparr>,
                \<lparr>node_Name = ''n2'', node_Taints = []\<rparr>],
     c_rollouts = [], c_deployments = [demo_deployment],
     c_replicasets = [\<lparr>rs_ObjectMeta = demo_meta ''web-rs'' None
       [\<lparr>ref_APIVersion = ''apps/v1'', ref_Kind = ''Deployment'', ref_Name = ''web''\<rparr>]\<rparr>],
     c_pods = [demo_pod ''web-1'' ''n1''],
     c_pdbs = [\<lparr>pdb_Selector = Some demo_selector\<rparr>],
     c_hpas = []\<rparr>"

definition demo_config :: Config where
  "demo_config = \<lparr>DrainTaints = DefaultDrainTaints, EnabledAnnotation = AnnotationEnabled,
     RequeueInterval = 5 * time_Second, ReadinessTimeout = 10 * time_Minute, LeaderElect = True,
     MetricsAddr = '':8080'', HealthAddr = '':8081'', RestartSurgeEnabled = True,
     RestartSurgeGracePeriod = 60 * time_Second, RestartSurgeTimeout = 10 * time_Minute\<rparr>"

section \<open>Runs\<close>

definition start_world :: "cluster \<Rightarrow> (cluster, api_call) world" where
  "start_world c = \<lparr>env = c, trace = []\<rparr>"

text \<open>The calls of a run, and the deployment and the Rollout it leaves behind.\<close>

definition trace_of :: "(cluster, 'a) api_prog \<Rightarrow> cluster \<Rightarrow> api_call list" where
  "trace_of m c = trace (snd (run_state m (start_world c)))"

definition run_env :: "(cluster, 'a) api_prog \<Rightarrow> cluster \<Rightarrow> cluster" where
  "run_env m c = env (snd (run_state m (start_world c)))"

definition run_result :: "(cluster, 'a) api_prog \<Rightarrow> cluster \<Rightarrow> 'a" where
  "run_result m c = fst (run_state m (start_world c))"

lemma emits_run:
  assumes "emits m Q"
  shows "Q (run_result m c) (trace_of m c)"
proof -
  from assms obtain l where "trace (snd (run_state m (start_world c))) = trace (start_world c) @ l"
    "Q (fst (run_state m (start_world c))) l"
    unfolding emits_def by blast
  then show ?thesis by (simp add: run_result_def trace_of_def start_world_def)
qed


text \<open>A run that writes state \<open>s\<close>, found by evaluation, meets what holds of all its writes.\<close>

definition patched_to :: "string \<Rightarrow> DrainState \<Rightarrow> api_call list \<Rightarrow> bool" where
  "patched_to key s l = list_ex (\<lambda>c. case c of
     PatchObject obj _ _ \<Rightarrow> anno_get (Annotations (object_meta obj)) key = s | _ \<Rightarrow> False) l"

lemma patched_toD:
  assumes "patched_to key s l" "patches_ok P l"
  shows "\<exists>wl' a. anno_get (wl_annotations wl') key = s \<and> P wl' \<and> PatchObject (Object wl') (patch_of wl') a \<in> set l"
proof -
  from assms(1) obtain c where in_l: "c \<in> set l"
    and "case c of PatchObject obj _ _ \<Rightarrow> anno_get (Annotations (object_meta obj)) key = s | _ \<Rightarrow> False"
    by (auto simp: patched_to_def list_ex_iff)
  then obtain obj p a where c: "c = PatchObject obj p a" and state: "anno_get (Annotations (object_meta obj)) key = s"
    by (cases c rule: api_call.exhaust) simp_all
  from patches_ok_in [OF assms(2) in_l [unfolded c]] in_l c state show ?thesis by auto
qed

lemma trace_of_run: "trace (snd (run_state m (start_world c))) = trace (start_world c) @ trace_of m c"
  by (simp add: trace_of_def start_world_def)

end
