(* ===== verification/DrainProperties.thy ===== *)
theory DrainProperties
  imports Scenario
begin

text \<open>
  The properties of the drain-surge controller, each over the definitions of
  \<open>NodeController\<close>, with witnesses on the executable cluster of \<open>Scenario\<close>.
\<close>

section \<open>Refinement of the surge machine\<close>

text \<open>
  C1. Whatever the cluster answers, a reconcile of one workload does not panic, and every patch of a
  workload it sends is the complete patch of an object that differs from the one it was given by one
  step of the abstract surge machine (start, re-apply, confirm, ready, scale down, finish, clean up,
  abort) and keeps the name, the kind and every annotation the controllers do not own.
\<close>

theorem drain_refines_surge_machine:
  "emits (reconcileWorkload K cfg wl nodeName)
     (\<lambda>r l. no_panic r \<and> patches_ok (drain_write wl) l)"
  using drain_ok_reconcileWorkload by (rule emits_mono) (simp add: drain_ok_def)

text \<open>
  C3. A reconcile of a node never panics, and it writes only to workloads it has read in the same
  reconcile. While the node carries a drain taint each write is a step of the surge machine on the
  object read; when the node is gone or carries none, each write is the abort of the object read.
\<close>

theorem node_reconcile_writes:
  "emits (Reconcile K cfg n) (\<lambda>r l. no_panic r \<and> patches_ok (node_write cfg n l) l)"
  by (rule node_ok_Reconcile)

section \<open>When a surge starts\<close>

lemma handlePending_pdb:
  "emits (handlePending K cfg wl nodeName) (\<lambda>r l. writes l = [] \<or>
     (\<exists>pdbs. ListPDBs (Namespace (GetObjectMeta wl)) (Inr pdbs) \<in> set l \<and>
        find_pdb K (fst (pf_Requirements K (GetPodSelector K wl))) pdbs))"
  unfolding handlePending_def by (intro case_vc emits_intros case_sumI) auto

lemma reconcile_prefix_writes [simp]: "reconcile_prefix cfg n wl pre \<Longrightarrow> writes pre = []"
  by (auto elim: reconcile_prefixE)

text \<open>
  C4. A workload with no drain under way is written to only if it is opted in, has exactly one
  replica, is stable, is not claimed by another node, can surge, its autoscaler (if any) allows two
  replicas, and a disruption budget of its namespace matches its pods.
\<close>

theorem drain_starts_only_when_safe:
  assumes "drain_state wl = ''''"
  shows "emits (reconcileWorkload K cfg wl nodeName) (\<lambda>r l. writes l = [] \<or>
     drain_eligible cfg nodeName wl \<and>
     (\<exists>hpas. ListHPAs (Namespace (GetObjectMeta wl)) (Inr hpas) \<in> set l \<and> hpa_allows_surge wl hpas) \<and>
     (\<exists>pdbs. ListPDBs (Namespace (GetObjectMeta wl)) (Inr pdbs) \<in> set l \<and>
        find_pdb K (fst (pf_Requirements K (GetPodSelector K wl))) pdbs))"
proof (rule emits_reconcileWorkload)
  fix pre assume "reconcile_prefix cfg nodeName wl pre"
  then obtain hpas where "pre = [ListHPAs (Namespace (GetObjectMeta wl)) (Inr hpas)]"
    "drain_eligible cfg nodeName wl" "hpa_allows_surge wl hpas"
    using assms by (auto elim: reconcile_prefixE)
  then show "emits (drain_dispatch K cfg wl nodeName (drain_state wl)) (\<lambda>r l. writes (pre @ l) = [] \<or>
     drain_eligible cfg nodeName wl \<and>
     (\<exists>hpas. ListHPAs (Namespace (GetObjectMeta wl)) (Inr hpas) \<in> set (pre @ l) \<and> hpa_allows_surge wl hpas) \<and>
     (\<exists>pdbs. ListPDBs (Namespace (GetObjectMeta wl)) (Inr pdbs) \<in> set (pre @ l) \<and>
        find_pdb K (fst (pf_Requirements K (GetPodSelector K wl))) pdbs))"
    using assms by (auto simp: drain_dispatch_def intro!: emits_mono [OF handlePending_pdb])
qed (use assms in \<open>simp_all add: drain_expired_def\<close>)

lemma demo_fresh: "drain_state (DeploymentWorkload demo_deployment) = ''''"
  by (simp add: demo_deployment_def demo_meta_def anno_get_def key_defs)

theorem drain_starts_only_when_safe_witness:
  "drain_state (DeploymentWorkload demo_deployment) = '''' \<and>
   writes (trace_of (reconcileWorkload sim demo_config (DeploymentWorkload demo_deployment) ''n1'') demo_cluster) \<noteq> [] \<and>
   drain_eligible demo_config ''n1'' (DeploymentWorkload demo_deployment)"
proof -
  have w: "writes (trace_of (reconcileWorkload sim demo_config (DeploymentWorkload demo_deployment) ''n1'')
      demo_cluster) \<noteq> []"
    by code_simp
  with emits_run [OF drain_starts_only_when_safe [OF demo_fresh], of sim demo_config "''n1''" demo_cluster]
  show ?thesis using demo_fresh by blast
qed

section \<open>What a start writes, and in which order\<close>

text \<open>The annotations recorded when a drain starts, and those for an autoscaled workload.\<close>

definition start_record :: "DrainableWorkload \<Rightarrow> string \<Rightarrow> Time \<Rightarrow> annotations" where
  "start_record wl nodeName now = (anno_make (wl_annotations wl))
     (AnnotationDrainState \<mapsto> DrainStateScaledUp,
      AnnotationOriginalReplicas \<mapsto> strconv_Itoa (sint (GetReplicas wl)),
      AnnotationDrainNode \<mapsto> nodeName, AnnotationDrainStart \<mapsto> time_Format_RFC3339 now)"

definition scaled_start :: "DrainableWorkload \<Rightarrow> string \<Rightarrow> Time \<Rightarrow> DrainableWorkload" where
  "scaled_start wl nodeName now =
     SetReplicas (GetReplicas wl + 1) (SetAnnotations (Some (start_record wl nodeName now)) wl)"

definition hpa_start :: "DrainableWorkload \<Rightarrow> string \<Rightarrow> Time \<Rightarrow> HorizontalPodAutoscaler \<Rightarrow> DrainableWorkload" where
  "hpa_start wl nodeName now hpa = SetAnnotations (Some ((start_record wl nodeName now)
     (AnnotationHPAName \<mapsto> Name (hpa_ObjectMeta hpa),
      AnnotationHPAOriginalMinReplicas \<mapsto> strconv_Itoa (sint (HPAMinReplicasOrDefault hpa))))) wl"

text \<open>
  The writes of a start, given the autoscaler found: none; one patch that records and scales the
  workload; or one patch that only records, followed by a raise of the autoscaler's minimum, which
  is sent only if the record was accepted.
\<close>

inductive start_writes :: "DrainableWorkload \<Rightarrow> string \<Rightarrow> HorizontalPodAutoscaler option \<Rightarrow> api_call list \<Rightarrow> bool"
  for wl nodeName found where
  nothing: "start_writes wl nodeName found []"
| scaled: "found = None \<Longrightarrow> wl' = scaled_start wl nodeName now \<Longrightarrow>
    start_writes wl nodeName found [PatchObject (Object wl') (patch_of wl') a]"
| record_failed: "found = Some hpa \<Longrightarrow> wl' = hpa_start wl nodeName now hpa \<Longrightarrow>
    start_writes wl nodeName found [PatchObject (Object wl') (patch_of wl') (Inl e)]"
| raised: "found = Some hpa \<Longrightarrow> wl' = hpa_start wl nodeName now hpa \<Longrightarrow>
    \<not> hpa_MaxReplicas hpa <s GetReplicas wl + 1 \<Longrightarrow>
    start_writes wl nodeName found [PatchObject (Object wl') (patch_of wl') (Inr obj),
      PatchHPA (Namespace (object_meta obj)) (Name (hpa_ObjectMeta hpa)) (GetReplicas wl + 1) a]"

lemma handlePending_writes:
  "emits (handlePending K cfg wl nodeName) (\<lambda>r l. \<exists>found. start_writes wl nodeName found (writes l) \<and>
     (writes l = [] \<or> (\<exists>hpas. ListHPAs (Namespace (GetObjectMeta wl)) (Inr hpas) \<in> set l \<and>
        found = find_hpa (Name (GetObjectMeta wl)) (GetObjectKind wl) hpas)))"
  unfolding handlePending_def
  by (intro case_vc emits_intros case_sumI)
    (auto simp: api_result_Inl_iff scaled_start_def hpa_start_def start_record_def
      simp del: word_sless_iff_sint
      intro: start_writes.intros)

text \<open>
  C16. Starting a drain surge: the patch of the workload records the state, the original count, the
  node and the time, and either scales the workload by one or, when an autoscaler targets it,
  records that autoscaler with its minimum; the autoscaler is raised only after that record was
  accepted, and never beyond its maximum. Nothing else is written.
\<close>

theorem drain_start_order:
  "emits (handlePending K cfg wl nodeName) (\<lambda>r l. \<exists>found. start_writes wl nodeName found (writes l) \<and>
     (writes l = [] \<or> (\<exists>hpas. ListHPAs (Namespace (GetObjectMeta wl)) (Inr hpas) \<in> set l \<and>
        found = find_hpa (Name (GetObjectMeta wl)) (GetObjectKind wl) hpas)))"
  by (rule handlePending_writes)

section \<open>Aborting\<close>

lemma abort_trace_shape:
  assumes "abort_trace f wl r l"
  shows "\<exists>h a rest. l = h @ PatchObject (Object (f wl)) (patch_of (f wl)) a # rest \<and>
    patches_ok (\<lambda>_. False) h \<and> writes rest = [] \<and> no_panic r \<and> (isl r \<longleftrightarrow> isl a)"
  using assms
proof cases
  case (patch_failed r0 h e a)
  then show ?thesis by (intro exI [of _ h] exI [of _ "Inl a"] exI [of _ "[]"]) simp
next
  case (patched r0 h obj ev)
  then show ?thesis by (intro exI [of _ h] exI [of _ "Inr obj"] exI [of _ "[RecordEvent obj ev]"]) simp
qed

lemma restore_trace_patched [simp]: "restore_trace meta r l \<Longrightarrow> patched_objects l = []"
  by (erule restore_trace.cases) simp_all

lemma abort_trace_patched [simp]: "abort_trace f wl r l \<Longrightarrow> patched_objects l = [Object (f wl)]"
  by (erule abort_trace.cases) simp_all

lemma abort_trace_minima:
  assumes "abort_trace f wl r l"
  shows "hpa_minima l = (case strconv_Atoi (anno_get (wl_annotations wl) AnnotationHPAOriginalMinReplicas) of
     Inl _ \<Rightarrow> [] | Inr n \<Rightarrow> if anno_get (wl_annotations wl) AnnotationHPAName = '''' then []
       else [(anno_get (wl_annotations wl) AnnotationHPAName, word_of_int n)])"
  using assms by (auto elim!: abort_trace.cases restore_trace.cases split: sum.splits)

lemma drain_aborted_replicas:
  "GetReplicas (drain_aborted wl) =
     (case getOriginalReplicas (wl_annotations wl) of Inr n \<Rightarrow> n | Inl _ \<Rightarrow> GetReplicas wl)"
  by (simp add: aborted_def restored_def split: sum.splits)

lemma drain_aborted_patch:
  "patch_annotations (patch_of (drain_aborted wl)) =
     (\<lambda>k. if k \<in> set drainAnnotationKeys then Some None else map_option Some (anno_lookup (wl_annotations wl) k))"
  by (rule ext) (simp add: aborted_def annoPatch_apply split: option.splits)

text \<open>
  C6. Aborting a drain, whatever happens to the autoscaler: exactly one patch of the workload is
  sent, last among the writes. It sets the replica count that was recorded (or leaves the count when
  no readable record exists), nulls all eight owned annotations and repeats every other annotation
  unchanged. The abort returns an error exactly when that patch failed, and never panics.
\<close>

theorem abort_restores_and_clears:
  "emits (abortWorkload K wl) (\<lambda>r l. \<exists>h wl' a rest. l = h @ PatchObject (Object wl') (patch_of wl') a # rest \<and>
     patches_ok (\<lambda>_. False) h \<and> writes rest = [] \<and> no_panic r \<and> (isl r \<longleftrightarrow> isl a) \<and>
     GetReplicas wl' = (case getOriginalReplicas (wl_annotations wl) of Inr n \<Rightarrow> n | Inl _ \<Rightarrow> GetReplicas wl) \<and>
     patch_annotations (patch_of wl') = (\<lambda>k. if k \<in> set drainAnnotationKeys then Some None
        else map_option Some (anno_lookup (wl_annotations wl) k)))"
proof (rule emits_abortWorkload)
  fix r l assume "abort_trace drain_aborted wl r l"
  from abort_trace_shape [OF this] drain_aborted_replicas [of wl] drain_aborted_patch [of wl]
  show "\<exists>h wl' a rest. l = h @ PatchObject (Object wl') (patch_of wl') a # rest \<and>
     patches_ok (\<lambda>_. False) h \<and> writes rest = [] \<and> no_panic r \<and> (isl r \<longleftrightarrow> isl a) \<and>
     GetReplicas wl' = (case getOriginalReplicas (wl_annotations wl) of Inr n \<Rightarrow> n | Inl _ \<Rightarrow> GetReplicas wl) \<and>
     patch_annotations (patch_of wl') = (\<lambda>k. if k \<in> set drainAnnotationKeys then Some None
        else map_option Some (anno_lookup (wl_annotations wl) k))"
    by blast
qed

section \<open>Timeouts\<close>

text \<open>
  The time after which an operation counts as overrun, for a timeout of \<open>T\<close> nanoseconds. The code also
  compares with \<open>3 * T\<close> in 64 bits; when that product does not fit it wraps to a value below \<open>T\<close>, negative
  for the smaller such \<open>T\<close>.
\<close>

definition timeout_limit :: "int \<Rightarrow> int" where
  "timeout_limit T = (if 3 * T < 2 ^ 63 then T else 3 * T - 2 ^ 64)"

lemma sint_triple:
  assumes "0 < sint (d :: Duration)"
  shows "sint (3 * d) = (if 3 * sint d < 2 ^ 63 then 3 * sint d else 3 * sint d - 2 ^ 64)" (is "_ = ?v")
proof -
  have "sint (word_of_int ?v :: Duration) = ?v"
    by (rule sint_word_of_int_id) (use assms sint64_range [of d] in \<open>auto simp: min_int64_def max_int64_def\<close>)
  moreover have "(word_of_int ?v :: Duration) = 3 * d" by simp
  ultimately show ?thesis by (simp only:)
qed

lemma overrun_iff:
  assumes "0 < sint (d :: Duration)"
  shows "(3 * d <s time_Sub now start \<or> d <s time_Sub now start) \<longleftrightarrow> timeout_limit (sint d) < now - start"
  using assms sint64_range [of d] time_Sub_greater [of d now start] time_Sub_greater [of "3 * d" now start]
  by (auto simp: sint_triple timeout_limit_def max_int64_def sint_time_Sub)

lemma timeout_limit_le: "0 < sint (d :: Duration) \<Longrightarrow> timeout_limit (sint d) \<le> sint d"
  using sint64_range [of d] by (auto simp: timeout_limit_def max_int64_def)

lemma drain_reconcile_timed:
  assumes "drain_state wl \<noteq> ''''" "drain_state wl \<noteq> DrainStateDone"
    and "parseDrainStart (wl_annotations wl) = Some start" "0 < sint (ReadinessTimeout cfg)"
  shows "emits (reconcileWorkload K cfg wl nodeName) (\<lambda>r l. \<exists>now rest. l = ReadClock now # rest \<and>
     (if timeout_limit (sint (ReadinessTimeout cfg)) < now - start
      then (\<exists>ev l'. rest = RecordEvent (Object wl) ev # l' \<and> abort_trace drain_aborted wl r l')
      else drain_node wl \<in> {'''', nodeName} \<or> rest = []))"
proof -
  note over = overrun_iff [OF assms(4)]
  have run: "reconcileWorkload K cfg wl nodeName = do {
      overrun \<leftarrow> drain_overrun K cfg wl nodeName;
      (case overrun of Some r \<Rightarrow> ret r
       | None \<Rightarrow> if drain_node wl \<notin> {'''', nodeName} then ret (Inr ctrl_Result)
                else drain_dispatch K cfg wl nodeName (drain_state wl)) }"
    using assms(1,2) by (simp add: reconcileWorkload_def Let_def)
  have handled: "emits (drain_dispatch K cfg wl n (drain_state wl)) (\<lambda>_ _. True)" for n
    using assms(1) by (intro emits_mono [OF drain_ok_dispatch]) auto
  show ?thesis
    unfolding run
    by (intro emits_bind emits_drain_overrun)
      (use assms(3) over in \<open>auto simp del: word_sless_iff_sint intro!: emits_return emits_mono [OF handled]\<close>)
qed

text \<open>
  C9. With a valid configuration a reconcile of a dated drain operation first reads the clock. If more
  time than the limit (the readiness timeout, where its triple fits 64 bits) has passed since the
  recorded start, the operation is aborted, whichever node's reconcile sees it. Otherwise a reconcile
  for another node than the recorded one makes no further call.
\<close>

theorem drain_timeout_aborts:
  assumes "drain_state wl \<noteq> ''''" "drain_state wl \<noteq> DrainStateDone"
    and "parseDrainStart (wl_annotations wl) = Some start" "Validate cfg = None"
  shows "emits (reconcileWorkload K cfg wl nodeName) (\<lambda>r l. \<exists>now rest. l = ReadClock now # rest \<and>
     (if timeout_limit (sint (ReadinessTimeout cfg)) < now - start
      then (\<exists>ev l'. rest = RecordEvent (Object wl) ev # l' \<and> abort_trace drain_aborted wl r l')
      else drain_node wl \<in> {'''', nodeName} \<or> rest = []))"
  using assms by (intro drain_reconcile_timed) (auto simp: Validate_None_iff)

text \<open>The demo deployment in the middle of a drain of node \<^verbatim>\<open>n1\<close>, in state \<open>s\<close>.\<close>

definition demo_surging :: "DrainState \<Rightarrow> DrainableWorkload" where
  "demo_surging s = to_state AnnotationDrainState s
     (scaled_start (DeploymentWorkload demo_deployment) ''n1'' t0)"

lemma started_reads [simp]:
  "drain_state (to_state AnnotationDrainState s (scaled_start wl n t)) = s"
  "drain_node (to_state AnnotationDrainState s (scaled_start wl n t)) = n"
  "anno_get (wl_annotations (to_state AnnotationDrainState s (scaled_start wl n t))) AnnotationHPAName =
     anno_get (wl_annotations wl) AnnotationHPAName"
  "getOriginalReplicas (wl_annotations (to_state AnnotationDrainState s (scaled_start wl n t))) = Inr (GetReplicas wl)"
  "GetReplicas (to_state AnnotationDrainState s (scaled_start wl n t)) = GetReplicas wl + 1"
  by (simp_all add: to_state_def scaled_start_def start_record_def)

lemma started_start:
  "rfc3339_range t \<Longrightarrow> parseDrainStart (wl_annotations (to_state AnnotationDrainState s (scaled_start wl n t))) =
     Some (t div nanos * nanos)"
  unfolding parseDrainStart_def
  by (rule parseRFC3339Annotation_Format) (simp_all add: to_state_def scaled_start_def start_record_def)

lemma demo_t0: "rfc3339_range t0" "t0 div nanos * nanos = t0"
  by code_simp+

lemma demo_surging_start: "parseDrainStart (wl_annotations (demo_surging s)) = Some t0"
  by (simp add: demo_surging_def started_start demo_t0 del: GetObjectMeta.simps)

lemma demo_surging_state [simp]:
  "drain_state (demo_surging s) = s" "drain_node (demo_surging s) = ''n1''"
  by (simp_all add: demo_surging_def del: GetObjectMeta.simps)

lemma demo_config_valid: "Validate demo_config = None" "RestartSurgeEnabled demo_config"
  by code_simp+

definition demo_late :: "api_call list" where
  "demo_late = trace_of (reconcileWorkload sim demo_config (demo_surging DrainStateReady) ''n2'')
     (demo_cluster\<lparr>c_now := t0 + 601 * nanos\<rparr>)"

lemma demo_late_clock: "case demo_late of ReadClock t # _ \<Rightarrow> timeout_limit (sint (ReadinessTimeout demo_config)) < t - t0 | _ \<Rightarrow> False"
  by code_simp

theorem drain_timeout_aborts_witness:
  "\<exists>now ev r l'. demo_late = ReadClock now # RecordEvent (Object (demo_surging DrainStateReady)) ev # l' \<and>
     abort_trace drain_aborted (demo_surging DrainStateReady) r l'"
proof -
  obtain now rest where l: "demo_late = ReadClock now # rest"
    and c: "if timeout_limit (sint (ReadinessTimeout demo_config)) < now - t0
      then (\<exists>ev l'. rest = RecordEvent (Object (demo_surging DrainStateReady)) ev # l' \<and>
        abort_trace drain_aborted (demo_surging DrainStateReady)
          (run_result (reconcileWorkload sim demo_config (demo_surging DrainStateReady) ''n2'')
            (demo_cluster\<lparr>c_now := t0 + 601 * nanos\<rparr>)) l')
      else drain_node (demo_surging DrainStateReady) \<in> {'''', ''n2''} \<or> rest = []"
    using emits_run [OF drain_timeout_aborts [OF _ _ demo_surging_start demo_config_valid(1), of DrainStateReady],
        of sim "''n2''" "demo_cluster\<lparr>c_now := t0 + 601 * nanos\<rparr>"]
    unfolding demo_late_def [symmetric] by auto
  from demo_late_clock have "timeout_limit (sint (ReadinessTimeout demo_config)) < now - t0" unfolding l by (simp only: list.case api_call.case)
  with c l show ?thesis by auto
qed

lemma aborted_state [simp]: "drain_state (drain_aborted wl) = ''''"
  by (simp add: aborted_def clearDrainAnnotations_def)

section \<open>Orphans and nodes that are gone\<close>

text \<open>The workloads a trace patches.\<close>

definition patched_in :: "api_call list \<Rightarrow> DrainableWorkload set" where
  "patched_in l = {wl. \<exists>a. PatchObject (Object wl) (patch_of wl) a \<in> set l}"

lemma patched_in_append [simp]: "patched_in (l @ l') = patched_in l \<union> patched_in l'"
  by (auto simp: patched_in_def)

lemma patched_in_Cons [simp]:
  "patched_in (c # l) = {wl. \<exists>a. c = PatchObject (Object wl) (patch_of wl) a} \<union> patched_in l"
  by (auto simp: patched_in_def)

definition drain_workloads :: "Rollout list \<Rightarrow> Deployment list \<Rightarrow> DrainableWorkload list" where
  "drain_workloads ros deps = map RolloutWorkload ros @ map DeploymentWorkload deps"



text \<open>The map the workloads of a node are collected in keeps the last of them under each key.\<close>

lemma map_of_fold_update_other:
  "k \<notin> wl_key ` set wls \<Longrightarrow> map_of (fold (\<lambda>wl. AList.update (wl_key wl) wl) wls ws) k = map_of ws k"
  by (induction wls arbitrary: ws) (auto simp: update_conv)

text \<open>The first workload of a list under each key, and the workloads that are the last under theirs.\<close>

definition first_by_key :: "DrainableWorkload list \<Rightarrow> string \<rightharpoonup> DrainableWorkload" where
  "first_by_key wls = map_of (map (\<lambda>wl. (wl_key wl, wl)) wls)"

definition last_listed :: "DrainableWorkload list \<Rightarrow> DrainableWorkload set" where
  "last_listed wls = {wl. first_by_key (rev wls) (wl_key wl) = Some wl}"

lemma first_by_key_key: "first_by_key wls k = Some wl \<Longrightarrow> wl \<in> set wls \<and> k = wl_key wl"
  unfolding first_by_key_def by (auto dest: map_of_SomeD)

lemma map_of_collected: "map_of (fold (\<lambda>wl. AList.update (wl_key wl) wl) wls []) = first_by_key (rev wls)"
  by (induction wls rule: rev_induct) (simp_all add: first_by_key_def update_conv')

lemma wl_values_range:
  assumes "\<And>ks. set (pf_range_order K ks) = set ks"
  shows "wl_values (range_map K ws) = {wl. \<exists>k. map_of ws k = Some wl}"
  by (force simp: wl_values_def in_range_map assms dest: map_of_SomeD)

lemma collected_last:
  assumes "\<And>ks. set (pf_range_order K ks) = set ks"
  shows "wl_values (range_map K (fold (\<lambda>wl. AList.update (wl_key wl) wl) wls [])) = last_listed wls"
  unfolding wl_values_range [OF assms] map_of_collected last_listed_def by (auto dest: first_by_key_key)

lemma last_listed_distinct: "distinct (map wl_key wls) \<Longrightarrow> last_listed wls = set wls"
  unfolding last_listed_def first_by_key_def
  by (auto simp: o_def rev_map [symmetric] intro!: map_of_is_SomeI dest!: map_of_SomeD)

lemma emits_abort_all_patched:
  "emits (abort_all K ws errs) (\<lambda>r l. no_panic r \<and> patched_in l = drain_aborted ` wl_values ws)"
  by (rule emits_mono [OF emits_abort_all]) (auto simp: patched_in_def dest: patches_ok_in)

text \<open>
  C22. When a node is gone or no longer tainted, its reconcile lists the Rollouts and then the Deployments
  recorded for it. If a list fails it returns an error and writes nothing. Otherwise, of the listed
  workloads that share a namespace and name it sends the abort of the last one, and of that one only;
  if no two share them, these are the aborts of all listed workloads. A failing abort does not stop
  the others. Go's iteration over a map visits every key.
\<close>

theorem gone_node_aborts_all:
  assumes "\<And>ks. set (pf_range_order K ks) = set ks"
  shows "emits (abortWorkloadsForNode K n) (\<lambda>r l. isl r \<and> writes l = [] \<or>
     (\<exists>ros deps rest. l = ListRolloutsByDrainNode n (Inr ros) # ListDeploymentsByDrainNode n (Inr deps) # rest \<and>
        patched_in rest = drain_aborted ` last_listed (drain_workloads ros deps) \<and>
        (distinct (map wl_key (drain_workloads ros deps)) \<longrightarrow>
         last_listed (drain_workloads ros deps) = set (drain_workloads ros deps))))"
  unfolding abortWorkloadsForNode_def findWorkloadsWithDrainNode_def drain_workloads_def [symmetric]
  by (intro emits_checked emits_client_call emits_return emits_case_option case_sumI case_vc
      emits_mono [OF emits_abort_all_patched])
    (auto simp: api_result_Inl_iff no_panic_def collected_last [OF assms] last_listed_distinct)

lemma sim_range: "set (pf_range_order sim ks) = set ks"
  by (simp add: sim_def)

definition demo_orphaned :: cluster where
  "demo_orphaned = demo_cluster\<lparr>c_deployments :=
     (case demo_surging DrainStateReady of DeploymentWorkload d \<Rightarrow> [d] | _ \<Rightarrow> [])\<rparr>"

definition demo_gone_run :: "api_call list" where
  "demo_gone_run = trace_of (abortWorkloadsForNode sim ''n1'') demo_orphaned"

lemma demo_gone_run_lists:
  "case demo_gone_run of
     ListRolloutsByDrainNode _ (Inr ros) # ListDeploymentsByDrainNode _ (Inr deps) # rest \<Rightarrow>
       distinct (map wl_key (drain_workloads ros deps)) \<and> length (drain_workloads ros deps) = 1
   | _ \<Rightarrow> False"
  "writes demo_gone_run \<noteq> []"
  by code_simp+

theorem gone_node_aborts_all_witness:
  "\<exists>ros deps rest. demo_gone_run =
       ListRolloutsByDrainNode ''n1'' (Inr ros) # ListDeploymentsByDrainNode ''n1'' (Inr deps) # rest \<and>
     length (drain_workloads ros deps) = 1 \<and> patched_in rest = drain_aborted ` set (drain_workloads ros deps)"
proof -
  obtain ros deps rest where
    l: "demo_gone_run = ListRolloutsByDrainNode ''n1'' (Inr ros) # ListDeploymentsByDrainNode ''n1'' (Inr deps) # rest"
    and c: "patched_in rest = drain_aborted ` last_listed (drain_workloads ros deps)"
      "distinct (map wl_key (drain_workloads ros deps)) \<longrightarrow>
      last_listed (drain_workloads ros deps) = set (drain_workloads ros deps)"
    using emits_run [OF gone_node_aborts_all [OF sim_range], of "''n1''" demo_orphaned] demo_gone_run_lists(2)
    unfolding demo_gone_run_def [symmetric] by blast
  from demo_gone_run_lists(1) have
    "distinct (map wl_key (drain_workloads ros deps)) \<and> length (drain_workloads ros deps) = 1"
    unfolding l by (simp only: list.case api_call.case sum.case)
  with c l show ?thesis by auto
qed

section \<open>Requeue times\<close>

definition positive_requeues :: "Result list \<Rightarrow> int set" where
  "positive_requeues rs = {sint (RequeueAfter r) |r. r \<in> set rs \<and> 0 < sint (RequeueAfter r)}"

lemma min_strict: "min (a :: int) b = (if a < b then a else b)"
  by auto

text \<open>
  The requeue time a node's reconcile collects over its workloads is the least positive one any
  of them asked for, in the signed order of durations, and zero if none asked.
\<close>

lemma requeue_is_least_positive:
  "sint (fold (\<lambda>r d. merge_requeue d r) rs 0) =
     (if positive_requeues rs = {} then 0 else Min (positive_requeues rs))"
proof (induction rs rule: rev_induct)
  case (snoc r rs)
  have fin: "finite (positive_requeues rs)"
    by (simp add: positive_requeues_def)
  have ins: "positive_requeues (rs @ [r]) = (if 0 < sint (RequeueAfter r)
      then insert (sint (RequeueAfter r)) (positive_requeues rs) else positive_requeues rs)"
    by (auto simp: positive_requeues_def)
  have pos: "0 < Min (positive_requeues rs)" if "positive_requeues rs \<noteq> {}"
    using Min_in [OF fin that] by (auto simp: positive_requeues_def)
  let ?d = "fold (\<lambda>r d. merge_requeue d r) rs 0"
  have zero: "?d = 0 \<longleftrightarrow> positive_requeues rs = {}"
    using snoc pos signed_eq_0_iff [of ?d] by (auto split: if_splits)
  have least: "Min (insert q (positive_requeues rs)) =
      (if q < Min (positive_requeues rs) then q else Min (positive_requeues rs))"
    if "positive_requeues rs \<noteq> {}" for q
    unfolding Min_insert [OF fin that] by (rule min_strict)
  have "sint (fold (\<lambda>r d. merge_requeue d r) (rs @ [r]) 0) =
      (if 0 < sint (RequeueAfter r) \<and> (positive_requeues rs = {} \<or> sint (RequeueAfter r) < sint ?d)
       then sint (RequeueAfter r) else sint ?d)"
    by (auto simp: merge_requeue_def [of ?d] zero [symmetric])
  then show ?case
    unfolding ins snoc by (cases "positive_requeues rs = {}") (simp_all add: least)
qed (simp add: positive_requeues_def)

section \<open>Progress of the wait for readiness\<close>

text \<open>
  The wait for readiness makes progress: for a scaled-up workload it lists the pods once; if the
  list fails it returns that error and writes nothing; if a ready pod that is not terminating runs
  elsewhere it sends exactly one patch, the one to state \<open>ready\<close>; otherwise it writes nothing and
  asks to be called again after the requeue interval.
\<close>

lemma wait_ready_decides:
  assumes "drain_state wl = DrainStateScaledUp"
  shows "emits (waitReady_check K cfg wl nodeName) (\<lambda>r l. \<exists>ans rest.
     l = ListMatchingPods (Namespace (GetObjectMeta wl)) (GetPodSelector K wl) ans # rest \<and>
     (case ans of Inl _ \<Rightarrow> isl r \<and> rest = []
      | Inr pods \<Rightarrow>
          if \<exists>pod \<in> set pods. pod_NodeName pod \<noteq> nodeName \<and> isPodReady pod \<and> \<not> isPodTerminating pod
          then (\<exists>a. rest = [PatchObject (Object (to_state AnnotationDrainState DrainStateReady wl))
                   (patch_of (to_state AnnotationDrainState DrainStateReady wl)) a] \<and> (isl r \<longleftrightarrow> isl a))
          else rest = [] \<and> r = Inr (requeue_after (RequeueInterval cfg))))"
  unfolding waitReady_check_def
  by (intro case_vc emits_intros case_sumI)
    (auto simp: ready_pod_elsewhere_iff annotate_to_state [of _ AnnotationDrainState] assms api_result_Inl_iff)

end
