(* ===== verification/RestartProperties.thy ===== *)
theory RestartProperties
  imports DrainProperties
begin

text \<open>
  The properties of the restart-surge controller, over the definitions of \<open>RolloutController\<close>,
  with witnesses on the executable cluster of \<open>Scenario\<close>.
\<close>

section \<open>Refinement of the surge machine\<close>

text \<open>
  C2. Whatever the cluster answers, a reconcile of one Rollout does not panic, and every patch it
  sends is the complete patch of an object that differs from the one it was given by one step of the
  abstract surge machine, seen under the restart keys, where the controller may also yield to a
  drain; name, kind and foreign annotations are kept.
\<close>

theorem restart_refines_surge_machine:
  "emits (restart_reconcileWorkload K cfg now ro) (\<lambda>r l. no_panic r \<and>
     patches_ok (restart_write (RolloutWorkload ro)) l)"
  using restart_ok_reconcileWorkload by (rule emits_mono) (simp add: restart_ok_def)

text \<open>
  C18. A request for a Rollout reads that Rollout once. A Rollout that is gone ends the request quietly,
  any other failure of the read is returned for a retry, and neither makes a further call; a Rollout
  that was read is reconciled on the very object read, without a panic, and every patch of the request
  is a complete patch of that Rollout by one step of the surge machine.
\<close>

theorem restart_request_behaviour:
  "emits (restart_Reconcile K cfg now req) (\<lambda>r l. \<exists>ans rest.
     l = GetRollout (req_Namespace req) (req_Name req) ans # rest \<and>
     (case ans of
        Inl e \<Rightarrow> rest = [] \<and> r = (if IsNotFound e then Inr ctrl_Result else Inl (Api e))
      | Inr ro \<Rightarrow> ran (restart_reconcileWorkload K cfg now ro) r rest \<and> no_panic r \<and>
          patches_ok (restart_write (RolloutWorkload ro)) rest))"
  unfolding restart_Reconcile_def
  by (intro emits_intros emits_mono [OF emits_ran [OF restart_ok_reconcileWorkload]]) (auto simp: restart_ok_def)

section \<open>When a restart surge starts\<close>

text \<open>The conditions on the Rollout itself under which a restart surge may start.\<close>

definition restart_eligible :: "Config \<Rightarrow> Rollout \<Rightarrow> bool" where
  "restart_eligible cfg ro \<longleftrightarrow>
     anno_get (Annotations (ro_ObjectMeta ro)) (EnabledAnnotation cfg) = ''true'' \<and> ro_GetReplicas ro = 1 \<and>
     drain_state (RolloutWorkload ro) = '''' \<and> IsStableForRestart ro"

lemma handleRestartPending_guards:
  "emits (handleRestartPending K cfg now ro) (\<lambda>r l. writes l = [] \<or>
     anno_get (Annotations (ro_ObjectMeta ro)) (EnabledAnnotation cfg) = ''true'' \<and> ro_GetReplicas ro = 1 \<and>
     IsStableForRestart ro \<and>
     (\<exists>pods t. ListMatchingPods (Namespace (ro_ObjectMeta ro)) (ro_GetPodSelector K ro) (Inr pods) \<in> set l \<and>
        ReadClock t \<in> set l \<and> isRestartStuck ro pods (RestartSurgeGracePeriod cfg) t) \<and>
     (\<exists>pdbs. ListPDBs (Namespace (ro_ObjectMeta ro)) (Inr pdbs) \<in> set l \<and>
        find_pdb K (fst (pf_Requirements K (ro_GetPodSelector K ro))) pdbs))"
proof -
  have surge: "emits (restart_surge K cfg now ro) (\<lambda>_ _. True)"
    unfolding restart_surge_def by (intro case_vc emits_intros case_sumI TrueI)
  show ?thesis
    unfolding handleRestartPending_def Let_def
    by (intro case_vc emits_if emits_checked emits_bind emits_listMatchingPods emits_timeNow emits_return emits_Eventf
        emits_FindMatchingPDB case_sumI emits_mono [OF surge]) auto
qed

text \<open>
  C17. A Rollout with no restart surge under way is written to only if it is opted in, has one
  replica, is not being drained, is healthy or in its own restart, a disruption budget matches its
  pods, and the pods listed and the clock read in the same reconcile show the restart to be stuck: it
  was requested at least the grace period ago, Argo has not recorded it as done and a live pod is
  older than the request.
\<close>

theorem restart_starts_only_when_stuck:
  assumes "restart_state (RolloutWorkload ro) = ''''"
  shows "emits (restart_reconcileWorkload K cfg now ro) (\<lambda>r l. writes l = [] \<or>
     restart_eligible cfg ro \<and>
     (\<exists>pods t. ListMatchingPods (Namespace (ro_ObjectMeta ro)) (ro_GetPodSelector K ro) (Inr pods) \<in> set l \<and>
        ReadClock t \<in> set l \<and> isRestartStuck ro pods (RestartSurgeGracePeriod cfg) t) \<and>
     (\<exists>pdbs. ListPDBs (Namespace (ro_ObjectMeta ro)) (Inr pdbs) \<in> set l \<and>
        find_pdb K (fst (pf_Requirements K (ro_GetPodSelector K ro))) pdbs))"
proof (rule emits_restart_reconcileWorkload, goal_cases)
  case (4 pre)
  then have "pre = []" using assms by (auto elim: restart_prefix.cases)
  with 4 assms show ?case
    by (auto simp: restart_dispatch_def restart_eligible_def intro!: emits_mono [OF handleRestartPending_guards])
qed (use assms in \<open>simp_all add: restart_expired_def\<close>)

lemma demo_rollout_fresh: "restart_state (RolloutWorkload demo_rollout) = ''''"
  by (simp add: demo_rollout_def demo_meta_def anno_get_def key_defs)

theorem restart_starts_only_when_stuck_witness:
  "restart_state (RolloutWorkload demo_rollout) = '''' \<and>
   writes (trace_of (restart_reconcileWorkload sim demo_config None demo_rollout)
     (demo_cluster\<lparr>c_rollouts := [demo_rollout]\<rparr>)) \<noteq> [] \<and> restart_eligible demo_config demo_rollout"
proof -
  have "writes (trace_of (restart_reconcileWorkload sim demo_config None demo_rollout)
     (demo_cluster\<lparr>c_rollouts := [demo_rollout]\<rparr>)) \<noteq> []"
    by code_simp
  with emits_run [OF restart_starts_only_when_stuck [OF demo_rollout_fresh], of sim demo_config None
      "demo_cluster\<lparr>c_rollouts := [demo_rollout]\<rparr>"]
  show ?thesis using demo_rollout_fresh by blast
qed

section \<open>A restart surge under way\<close>

lemma count_ready_filter: "count_ready pods = length (filter (\<lambda>p. \<not> isPodTerminating p \<and> isPodReady p) pods)"
  by (induction pods) auto

text \<open>The demo Rollout in the middle of a restart surge, in state \<open>s\<close>.\<close>

definition demo_restarting :: "DrainState \<Rightarrow> Rollout" where
  "demo_restarting s = ro_SetReplicas 2 (ro_SetAnnotations (Some [AnnotationEnabled \<mapsto> ''true'',
     AnnotationRestartSurgeState \<mapsto> s, AnnotationOriginalReplicas \<mapsto> ''1'',
     AnnotationRestartSurgeStart \<mapsto> time_Format_RFC3339 t0]) demo_rollout)"

lemma demo_restarting_state: "restart_state (RolloutWorkload (demo_restarting s)) = s"
  by (simp add: demo_restarting_def ro_SetReplicas_def ro_SetAnnotations_def)

section \<open>Meeting a drain\<close>

text \<open>
  C21. While a drain is under way on a Rollout, the restart controller starts nothing: with no
  restart surge active it makes no call at all; with one active and in time it sends one patch,
  which removes exactly the two restart keys and leaves the bookkeeping it shares with the drain.
\<close>

theorem restart_yields_to_drain:
  assumes "drain_state (RolloutWorkload ro) \<noteq> ''''"
  shows "emits (restart_reconcileWorkload K cfg now ro) (\<lambda>r l.
     (\<exists>t ev l'. restart_expired cfg t (RolloutWorkload ro) \<and>
        l = ReadClock t # RecordEvent (RolloutObject ro) ev # l' \<and>
        abort_trace restart_aborted (RolloutWorkload ro) r l') \<or>
     (if restart_active (RolloutWorkload ro)
      then (\<exists>wl' a. writes l = [PatchObject (Object wl') (patch_of wl') a] \<and>
        anno_lookup (wl_annotations wl') = (\<lambda>k. if k \<in> set restartSurgeExclusiveKeys then None
          else anno_lookup (Annotations (ro_ObjectMeta ro)) k))
      else l = []))"
proof -
  have look: "anno_lookup (wl_annotations (yielded (RolloutWorkload ro))) =
      (\<lambda>k. if k \<in> set restartSurgeExclusiveKeys then None else anno_lookup (Annotations (ro_ObjectMeta ro)) k)"
    by (rule ext) (simp add: yielded_lookup)
  show ?thesis
  proof (rule emits_restart_reconcileWorkload, goal_cases)
    case (2 pre)
    then have "writes pre = []" by (auto elim: restart_prefix.cases)
    with 2 look show ?case
      unfolding yieldToDrain_eq by (intro case_vc emits_intros case_sumI) auto
  qed (use assms in auto)
qed

text \<open>The demo Rollout in both operations at once.\<close>

definition demo_both :: Rollout where
  "demo_both = ro_SetAnnotations (Some ((anno_make (Annotations (ro_ObjectMeta (demo_restarting DrainStateScaledUp))))
     (AnnotationDrainState \<mapsto> DrainStateScaledUp, AnnotationDrainNode \<mapsto> ''n1''))) (demo_restarting DrainStateScaledUp)"

lemma demo_both_states:
  "drain_state (RolloutWorkload demo_both) = DrainStateScaledUp"
  "restart_state (RolloutWorkload demo_both) = DrainStateScaledUp"
  "anno_lookup (Annotations (ro_ObjectMeta demo_both)) AnnotationRestartSurgeStart = Some (time_Format_RFC3339 t0)"
  by (simp_all add: demo_both_def demo_restarting_def ro_SetReplicas_def ro_SetAnnotations_def)

lemma demo_both_start: "parseRestartSurgeStart (Annotations (ro_ObjectMeta demo_both)) = Some t0"
  using parseRFC3339Annotation_Format [OF demo_both_states(3) demo_t0(1)]
  by (simp add: parseRestartSurgeStart_def demo_t0)

definition demo_yield_run :: "api_call list" where
  "demo_yield_run = trace_of (restart_reconcileWorkload sim demo_config None demo_both)
     (demo_cluster\<lparr>c_rollouts := [demo_both]\<rparr>)"

lemma demo_yield_run_patches: "case demo_yield_run of _ # PatchObject _ _ _ # _ \<Rightarrow> True | _ \<Rightarrow> False"
  by code_simp

theorem restart_yields_to_drain_witness:
  "\<exists>wl' a. writes demo_yield_run = [PatchObject (Object wl') (patch_of wl') a] \<and>
     drain_state wl' = DrainStateScaledUp \<and> restart_state wl' = ''''"
proof -
  have st: "drain_state (RolloutWorkload demo_both) \<noteq> ''''" "restart_active (RolloutWorkload demo_both)"
    unfolding demo_both_states by simp_all
  have "demo_yield_run \<noteq> ReadClock t # RecordEvent obj ev # l'" for t obj ev l'
  proof
    assume l: "demo_yield_run = ReadClock t # RecordEvent obj ev # l'"
    from demo_yield_run_patches show False unfolding l by (simp only: list.case api_call.case)
  qed
  then obtain wl' a where w: "writes demo_yield_run = [PatchObject (Object wl') (patch_of wl') a]"
    and look: "anno_lookup (wl_annotations wl') = (\<lambda>k. if k \<in> set restartSurgeExclusiveKeys then None
      else anno_lookup (Annotations (ro_ObjectMeta demo_both)) k)"
    using emits_run [OF restart_yields_to_drain [OF st(1)], of demo_config sim None
        "demo_cluster\<lparr>c_rollouts := [demo_both]\<rparr>"] st(2)
    unfolding demo_yield_run_def [symmetric] by auto
  have "drain_state wl' = drain_state (RolloutWorkload demo_both)" "restart_state wl' = ''''"
    by (simp_all add: anno_get_def look)
  with w show ?thesis unfolding demo_both_states by blast
qed

text \<open>
  C36. The time limit of the restart surge comes before everything else: a reconcile of a dated surge
  first reads the clock, and once the limit is exceeded it aborts, even while a drain of the same Rollout
  is under way; the object it writes then keeps the drain's state but has lost the original count
  the drain relies on. In time, a drain under way is yielded to with one write.
\<close>

theorem restart_timeout_preempts_drain:
  assumes "restart_active (RolloutWorkload ro)" "parseRestartSurgeStart (Annotations (ro_ObjectMeta ro)) = Some start"
    and "0 < sint (RestartSurgeTimeout cfg)"
  shows "emits (restart_reconcileWorkload K cfg now ro) (\<lambda>r l. \<exists>t rest. l = ReadClock t # rest \<and>
     (if timeout_limit (sint (RestartSurgeTimeout cfg)) < t - start
      then (\<exists>ev l'. rest = RecordEvent (RolloutObject ro) ev # l' \<and>
        abort_trace restart_aborted (RolloutWorkload ro) r l' \<and>
        drain_state (restart_aborted (RolloutWorkload ro)) = drain_state (RolloutWorkload ro) \<and>
        isl (getOriginalReplicas (wl_annotations (restart_aborted (RolloutWorkload ro)))))
      else drain_state (RolloutWorkload ro) = '''' \<or> length (writes rest) = 1))"
proof -
  note over = overrun_iff [OF assms(3)]
  have lost: "drain_state (restart_aborted (RolloutWorkload ro)) = drain_state (RolloutWorkload ro)"
    "isl (getOriginalReplicas (wl_annotations (restart_aborted (RolloutWorkload ro))))"
    using getOriginalReplicas_delete_keys [of restartSurgeFullKeys "Annotations (ro_ObjectMeta ro)"]
    by (auto simp: aborted_def clearRestartSurgeAnnotations_def)
  have limit: "restart_expired cfg t (RolloutWorkload ro) \<longleftrightarrow> timeout_limit (sint (RestartSurgeTimeout cfg)) < t - start" for t
    using over [of t start] assms(1,2) by (simp add: restart_expired_def del: word_sless_iff_sint)
  have in_time: "\<exists>t. pre = [ReadClock t] \<and> \<not> timeout_limit (sint (RestartSurgeTimeout cfg)) < t - start"
    if "restart_prefix cfg (RolloutWorkload ro) pre" for pre
    using that assms(1,2) unfolding limit [symmetric] by (auto elim: restart_prefix.cases)
  show ?thesis
  proof (rule emits_restart_reconcileWorkload, goal_cases)
    case (1 t ev r l)
    with lost show ?case unfolding limit by simp
  next
    case (2 pre)
    with in_time obtain t where "pre = [ReadClock t]" "\<not> timeout_limit (sint (RestartSurgeTimeout cfg)) < t - start" by blast
    then show ?case
      unfolding yieldToDrain_eq by (intro case_vc emits_intros case_sumI) auto
  next
    case (4 pre)
    with in_time obtain t where "pre = [ReadClock t]" "\<not> timeout_limit (sint (RestartSurgeTimeout cfg)) < t - start" by blast
    with 4(2) show ?case by (intro emits_mono [OF restart_ok_dispatch]) auto
  qed (use assms in auto)
qed

definition demo_preempt_run :: "api_call list" where
  "demo_preempt_run = trace_of (restart_reconcileWorkload sim demo_config None demo_both)
     (demo_cluster\<lparr>c_rollouts := [demo_both], c_now := t0 + 601 * nanos\<rparr>)"

lemma demo_preempt_run_clock:
  "case demo_preempt_run of ReadClock t # _ \<Rightarrow> timeout_limit (sint (RestartSurgeTimeout demo_config)) < t - t0 | _ \<Rightarrow> False"
  "0 < sint (RestartSurgeTimeout demo_config)"
  by code_simp+

theorem restart_timeout_preempts_drain_witness:
  "drain_state (RolloutWorkload demo_both) \<noteq> '''' \<and>
   (\<exists>t ev r l'. demo_preempt_run = ReadClock t # RecordEvent (RolloutObject demo_both) ev # l' \<and>
      abort_trace restart_aborted (RolloutWorkload demo_both) r l' \<and>
      drain_state (restart_aborted (RolloutWorkload demo_both)) = DrainStateScaledUp \<and>
      isl (getOriginalReplicas (wl_annotations (restart_aborted (RolloutWorkload demo_both)))))"
proof -
  have st: "drain_state (RolloutWorkload demo_both) \<noteq> ''''" "restart_active (RolloutWorkload demo_both)"
    unfolding demo_both_states by simp_all
  obtain t rest where l: "demo_preempt_run = ReadClock t # rest"
    and c: "timeout_limit (sint (RestartSurgeTimeout demo_config)) < t - t0 \<Longrightarrow>
      (\<exists>r ev l'. rest = RecordEvent (RolloutObject demo_both) ev # l' \<and>
        abort_trace restart_aborted (RolloutWorkload demo_both) r l' \<and>
        drain_state (restart_aborted (RolloutWorkload demo_both)) = drain_state (RolloutWorkload demo_both) \<and>
        isl (getOriginalReplicas (wl_annotations (restart_aborted (RolloutWorkload demo_both)))))"
    using emits_run [OF restart_timeout_preempts_drain [OF st(2) demo_both_start demo_preempt_run_clock(2)],
        of sim None "demo_cluster\<lparr>c_rollouts := [demo_both], c_now := t0 + 601 * nanos\<rparr>"]
    unfolding demo_preempt_run_def [symmetric] by metis
  from demo_preempt_run_clock(1) have "timeout_limit (sint (RestartSurgeTimeout demo_config)) < t - t0"
    unfolding l by (simp only: list.case api_call.case)
  from c [OF this] st(1) show ?thesis unfolding demo_both_states l by blast
qed

section \<open>The event filter\<close>

text \<open>The object a filter judges an event by.\<close>

fun event_object :: "watch_event \<Rightarrow> client_Object" where
  "event_object (CreateEvent obj) = obj"
| "event_object (UpdateEvent _ objectNew) = objectNew"
| "event_object (DeleteEvent obj) = obj"
| "event_object (GenericEvent obj) = obj"

text \<open>
  C28. The event filter loses nothing: when it rejects an event on a Rollout, a reconcile run on the
  object of the event (the new one, for an update) writes nothing and asks for no requeue.
\<close>

theorem filtered_rollouts_need_no_write:
  assumes "\<not> rolloutRelevantPredicate (EnabledAnnotation cfg) ev" "event_object ev = RolloutObject ro"
  shows "emits (restart_reconcileWorkload K cfg now ro) (\<lambda>r l. writes l = [] \<and> (isl r \<or> r = Inr ctrl_Result))"
proof -
  have irrelevant: "\<not> relevant (EnabledAnnotation cfg) (RolloutObject ro)"
    using assms by (cases ev) simp_all
  have st: "restart_state (RolloutWorkload ro) = ''''"
    using irrelevant by (auto simp: relevant_def Let_def split: if_splits)
  have stuck: "\<not> isRestartStuck ro pods d t" "ro_RestartAt ro = None \<or> ro_RestartedAt ro = ro_RestartAt ro"
    if "anno_get (Annotations (ro_ObjectMeta ro)) (EnabledAnnotation cfg) = ''true''" for pods d t
    using irrelevant that st by (auto simp: relevant_def isRestartStuck_def Let_def split: if_splits option.splits)
  have "emits (handleRestartPending K cfg now ro) (\<lambda>r l. writes l = [] \<and> (isl r \<or> r = Inr ctrl_Result))"
    unfolding handleRestartPending_def Let_def
    by (intro case_vc emits_if emits_checked emits_bind emits_listMatchingPods emits_timeNow emits_return emits_Eventf
        emits_FindMatchingPDB case_sumI) (use stuck in auto)
  then show ?thesis
    by (intro emits_restart_reconcileWorkload)
      (use st in \<open>auto simp: restart_expired_def restart_dispatch_def elim!: restart_prefix.cases\<close>)
qed

definition demo_update :: watch_event where
  "demo_update = UpdateEvent (RolloutObject demo_rollout) (RolloutObject (demo_rollout\<lparr>ro_RestartAt := None\<rparr>))"

lemma demo_unmarked: "\<not> rolloutRelevantPredicate (EnabledAnnotation demo_config) demo_update"
  by code_simp

lemma demo_update_object: "event_object demo_update = RolloutObject (demo_rollout\<lparr>ro_RestartAt := None\<rparr>)"
  by (simp add: demo_update_def)

theorem filtered_rollouts_need_no_write_witness:
  "\<not> rolloutRelevantPredicate (EnabledAnnotation demo_config) demo_update \<and>
   writes (trace_of (restart_reconcileWorkload sim demo_config None (demo_rollout\<lparr>ro_RestartAt := None\<rparr>)) demo_cluster) = []"
  using emits_run [OF filtered_rollouts_need_no_write [OF demo_unmarked demo_update_object]] demo_unmarked by blast

section \<open>Orphan recovery\<close>


end
