(* ===== verification/ComponentProperties.thy ===== *)
theory ComponentProperties
  imports RestartProperties
begin

text \<open>
  The properties of the components the controllers are built from: configuration, bookkeeping
  annotations, merge patch, searches for budgets, autoscalers and owners, restart detection, indexes.
\<close>

section \<open>Configuration\<close>

text \<open>
  Validation accepts exactly the configurations with a positive requeue interval below the
  readiness timeout, at least one taint, a non-empty annotation key and, with restart surge enabled,
  a positive grace period below its timeout.
\<close>

lemma validate_accepts_exactly:
  "Validate c = None \<longleftrightarrow>
     0 < sint (RequeueInterval c) \<and> sint (RequeueInterval c) < sint (ReadinessTimeout c) \<and>
     DrainTaints c \<noteq> [] \<and> EnabledAnnotation c \<noteq> '''' \<and>
     (if RestartSurgeEnabled c
      then 0 < sint (RestartSurgeGracePeriod c) \<and> sint (RestartSurgeGracePeriod c) < sint (RestartSurgeTimeout c)
      else True)"
  by (auto simp: Validate_None_iff)

text \<open>
  With no flag on the command line the parsed configuration is accepted: requeue every 5 s, time
  out after 10 min, the three default taints, restart surge off.
\<close>

lemma parse_defaults:
  "\<exists>cfg. Parse no_flags = Inr cfg \<and> Validate cfg = None \<and> sint (RequeueInterval cfg) = 5 * nanos \<and>
     sint (ReadinessTimeout cfg) = 600 * nanos \<and> EnabledAnnotation cfg = AnnotationEnabled \<and>
     map dt_Key (DrainTaints cfg) =
       [''karpenter.sh/disrupted'', ''ToBeDeletedByClusterAutoscaler'', ''node.kubernetes.io/unschedulable''] \<and>
     \<not> RestartSurgeEnabled cfg \<and> LeaderElect cfg"
  by (simp add: Config_defs Let_def AnnotationEnabled_def)

section \<open>Bookkeeping round trips\<close>

text \<open>
  C32. The start time recorded in RFC 3339 form is read back as the instant truncated to the second,
  for every instant of the years 0 to 9999.
\<close>

theorem drain_start_round_trip:
  assumes "rfc3339_range t"
  shows "parseDrainStart (Some (m(AnnotationDrainStart \<mapsto> time_Format_RFC3339 t))) = Some (t div nanos * nanos)"
  unfolding parseDrainStart_def using assms by (intro parseRFC3339Annotation_Format) simp_all

theorem drain_start_round_trip_witness:
  "rfc3339_range t0 \<and>
   parseDrainStart (Some [AnnotationDrainStart \<mapsto> time_Format_RFC3339 t0]) = Some t0"
  using drain_start_round_trip [OF demo_t0(1), of Map.empty] demo_t0 by simp

lemma abort_undoes_start:
  assumes "wl' = scaled_start wl n t \<and> hpas = [] \<and> anno_get (wl_annotations wl) AnnotationHPAName = '''' \<or>
     wl' = hpa_start wl n t hpa \<and> hpas = [hpa]"
  shows "emits (abortWorkload K wl') (\<lambda>r l. \<exists>wl''. patched_objects l = [Object wl''] \<and> GetReplicas wl'' = GetReplicas wl \<and>
     anno_lookup (wl_annotations wl'') =
       (\<lambda>k. if k \<in> set drainAnnotationKeys then None else anno_lookup (wl_annotations wl) k) \<and>
     (hpa_minima l = [] \<or> hpa_minima l = map (\<lambda>hpa. (Name (hpa_ObjectMeta hpa), HPAMinReplicasOrDefault hpa)) hpas))"
proof (rule emits_abortWorkload)
  fix r l assume "abort_trace drain_aborted wl' r l"
  note l = abort_trace_patched [OF this] abort_trace_minima [OF this]
  have "GetReplicas (drain_aborted wl') = GetReplicas wl" and
    "anno_lookup (wl_annotations (drain_aborted wl')) =
       (\<lambda>k. if k \<in> set drainAnnotationKeys then None else anno_lookup (wl_annotations wl) k)"
    using assms by (auto simp: aborted_def restored_def scaled_start_def hpa_start_def start_record_def anno_lookup_make)
  moreover have "hpa_minima l = [] \<or> hpa_minima l = map (\<lambda>hpa. (Name (hpa_ObjectMeta hpa), HPAMinReplicasOrDefault hpa)) hpas"
    using assms by (auto simp: l(2) scaled_start_def hpa_start_def start_record_def split: sum.splits)
  ultimately show "\<exists>wl''. patched_objects l = [Object wl''] \<and> GetReplicas wl'' = GetReplicas wl \<and>
     anno_lookup (wl_annotations wl'') =
       (\<lambda>k. if k \<in> set drainAnnotationKeys then None else anno_lookup (wl_annotations wl) k) \<and>
     (hpa_minima l = [] \<or> hpa_minima l = map (\<lambda>hpa. (Name (hpa_ObjectMeta hpa), HPAMinReplicasOrDefault hpa)) hpas)"
    using l(1) by blast
qed

lemma patches_ok_writes: "patches_ok P (writes l) \<longleftrightarrow> patches_ok P l"
  by (induction l) (auto simp: patch_ok_def split: api_call.splits)

text \<open>
  C30. Starting a drain surge and aborting it is a round trip: whatever object a start patches, an abort
  of that object patches one with the replica count before the start, none of the owned annotations
  and every other annotation as before; and the only minimum it sends is that of the autoscaler the
  start had read.
\<close>

theorem start_abort_round_trip:
  assumes "anno_get (wl_annotations wl) AnnotationHPAName = ''''"
  shows "emits (handlePending K cfg wl nodeName) (\<lambda>r l. patches_ok (\<lambda>wl'. emits (abortWorkload K wl') (\<lambda>r' l'.
     \<exists>wl''. patched_objects l' = [Object wl''] \<and> GetReplicas wl'' = GetReplicas wl \<and>
       anno_lookup (wl_annotations wl'') =
         (\<lambda>k. if k \<in> set drainAnnotationKeys then None else anno_lookup (wl_annotations wl) k) \<and>
       (hpa_minima l' = [] \<or> (\<exists>hpa. hpa_read wl hpa l \<and>
          hpa_minima l' = [(Name (hpa_ObjectMeta hpa), HPAMinReplicasOrDefault hpa)])))) l)"
    (is "emits _ (\<lambda>r l. patches_ok (?undone l) l)")
proof (rule emits_mono [OF handlePending_writes])
  fix r l assume "\<exists>found. start_writes wl nodeName found (writes l) \<and>
     (writes l = [] \<or> (\<exists>hpas. ListHPAs (Namespace (GetObjectMeta wl)) (Inr hpas) \<in> set l \<and>
        found = find_hpa (Name (GetObjectMeta wl)) (GetObjectKind wl) hpas))"
  then obtain found where start: "start_writes wl nodeName found (writes l)"
    and read: "writes l = [] \<or> (\<forall>hpa. found = Some hpa \<longrightarrow> hpa_read wl hpa l)" by (auto intro: hpa_readI)
  have plain: "?undone l (scaled_start wl nodeName t)" for t
    by (rule emits_mono [OF abort_undoes_start [of _ wl nodeName t "[]"]]) (use assms in auto)
  have autoscaled: "?undone l (hpa_start wl nodeName t hpa)" if "hpa_read wl hpa l" for t hpa
    by (rule emits_mono [OF abort_undoes_start [of _ wl nodeName t "[hpa]"]]) (use that in auto)
  from start have "patches_ok (?undone l) (writes l)"
    by cases (use read plain autoscaled in \<open>auto simp del: GetObjectMeta.simps\<close>)
  then show "patches_ok (?undone l) l" by (simp only: patches_ok_writes)
qed

lemma demo_pending_run:
  "patched_to AnnotationDrainState DrainStateScaledUp
     (trace_of (handlePending sim demo_config (DeploymentWorkload demo_deployment) ''n1'') demo_cluster)"
  "anno_get (wl_annotations (DeploymentWorkload demo_deployment)) AnnotationHPAName = ''''"
  by code_simp+

theorem start_abort_round_trip_witness:
  "\<exists>wl'. drain_state wl' = DrainStateScaledUp \<and>
     emits (abortWorkload sim wl') (\<lambda>r' l'. \<exists>wl''. patched_objects l' = [Object wl''] \<and>
       GetReplicas wl'' = GetReplicas (DeploymentWorkload demo_deployment))"
proof -
  obtain wl' where "drain_state wl' = DrainStateScaledUp" and
    undone: "emits (abortWorkload sim wl') (\<lambda>r' l'. \<exists>wl''. patched_objects l' = [Object wl''] \<and>
      GetReplicas wl'' = GetReplicas (DeploymentWorkload demo_deployment) \<and>
      anno_lookup (wl_annotations wl'') = (\<lambda>k. if k \<in> set drainAnnotationKeys then None
        else anno_lookup (wl_annotations (DeploymentWorkload demo_deployment)) k) \<and>
      (hpa_minima l' = [] \<or> (\<exists>hpa. hpa_read (DeploymentWorkload demo_deployment) hpa
          (trace_of (handlePending sim demo_config (DeploymentWorkload demo_deployment) ''n1'') demo_cluster) \<and>
        hpa_minima l' = [(Name (hpa_ObjectMeta hpa), HPAMinReplicasOrDefault hpa)])))"
    using patched_toD [OF demo_pending_run(1) emits_run [OF start_abort_round_trip [OF demo_pending_run(2)]]] by blast
  from undone have "emits (abortWorkload sim wl') (\<lambda>r' l'. \<exists>wl''. patched_objects l' = [Object wl''] \<and>
       GetReplicas wl'' = GetReplicas (DeploymentWorkload demo_deployment))"
    by (rule emits_mono) blast
  with \<open>drain_state wl' = DrainStateScaledUp\<close> show ?thesis by blast
qed

text \<open>
  C31. A merge patch built from the local annotations, applied by the rules of RFC 7386 to whatever
  the server holds, leaves every owned key exactly as the local object has it, absent keys deleted,
  sets the other local keys and keeps the server's remaining ones.
\<close>

theorem merge_patch_writes_owned_keys:
  "anno_lookup (merge_annotations (annoPatch a) server) k =
     (if k \<in> set drainAnnotationKeys then anno_lookup a k
      else case anno_lookup a k of Some v \<Rightarrow> Some v | None \<Rightarrow> anno_lookup server k)"
  by (rule anno_lookup_merge)

section \<open>Searches\<close>

text \<open>
  C35. A disruption budget matches a workload exactly when its selector has at least one requirement
  and each of its requirements appears, in printed form, among those of the workload's selector; in
  particular the empty selector, which selects every pod, never matches.
\<close>

theorem requirements_match_iff:
  "requirementsMatch K pdbReqs workloadReqs \<longleftrightarrow>
     pdbReqs \<noteq> [] \<and> pf_Requirement_String K ` set pdbReqs \<subseteq> pf_Requirement_String K ` set workloadReqs"
  by (auto simp: requirementsMatch_def all_requirements_found_iff)

text \<open>
  The autoscaler search makes one list call and never writes; it fails exactly when the call
  fails, and otherwise returns an autoscaler of the list that targets the workload's name and kind,
  or none when no listed one does.
\<close>

lemma find_hpa_correct:
  "emits (FindMatchingHPA K ns name kind) (\<lambda>r l. \<exists>ans. l = [ListHPAs ns ans] \<and>
     (case ans of Inl _ \<Rightarrow> isl r
      | Inr hpas \<Rightarrow> (\<exists>found. r = Inr found \<and> (case found of
          None \<Rightarrow> \<not> (\<exists>hpa \<in> set hpas. hpa_ScaleTargetName hpa = name \<and> hpa_ScaleTargetKind hpa = kind)
        | Some hpa \<Rightarrow> hpa \<in> set hpas \<and> hpa_ScaleTargetName hpa = name \<and> hpa_ScaleTargetKind hpa = kind))))"
  by (intro emits_intros) (auto split: option.splits simp: find_hpa_None dest: find_hpa_Some)

lemma emits_resolve_owner_chain:
  "emits (resolve_owner K ns refs) (\<lambda>r l. case r of
     Inr (Some wl) \<Rightarrow> (\<exists>ref \<in> set refs. ref_Kind ref = GetObjectKind wl \<and>
       (case wl of RolloutWorkload ro \<Rightarrow> GetRollout ns (ref_Name ref) (Inr ro) \<in> set l
        | DeploymentWorkload dep \<Rightarrow> GetDeployment ns (ref_Name ref) (Inr dep) \<in> set l))
   | _ \<Rightarrow> True)"
proof (induction K ns refs rule: resolve_owner.induct)
  case (2 K ns r rs)
  then show ?case
    by (auto intro!: emits_intros case_sumI simp: ro_GetObjectKind_def dep_GetObjectKind_def
        elim!: emits_mono split: sum.splits option.splits DrainableWorkload.splits)
qed (auto intro!: emits_intros)

text \<open>
  A workload resolved from a pod is the end of an owner chain read from the cluster in the pod's
  namespace: the ReplicaSet the pod names as its owner, and an owner of that ReplicaSet of the
  resolved workload's kind.
\<close>

lemma resolved_workload_owns_pod:
  "emits (ResolveWorkloadFromPod K pod) (\<lambda>r l. case r of
     Inr (Some wl) \<Rightarrow> (\<exists>rsName rs ref.
       rsName = find_rs_name (OwnerReferences (pod_ObjectMeta pod)) \<and> rsName \<noteq> '''' \<and>
       GetReplicaSet (Namespace (pod_ObjectMeta pod)) rsName (Inr rs) \<in> set l \<and>
       ref \<in> set (OwnerReferences (rs_ObjectMeta rs)) \<and> ref_Kind ref = GetObjectKind wl \<and>
       (case wl of RolloutWorkload ro \<Rightarrow> GetRollout (Namespace (pod_ObjectMeta pod)) (ref_Name ref) (Inr ro) \<in> set l
        | DeploymentWorkload dep \<Rightarrow> GetDeployment (Namespace (pod_ObjectMeta pod)) (ref_Name ref) (Inr dep) \<in> set l))
   | _ \<Rightarrow> writes l = [])"
proof -
  have owner: "emits (resolve_owner K ns refs) (\<lambda>r l. writes l = [] \<and> (case r of
     Inr (Some wl) \<Rightarrow> (\<exists>ref \<in> set refs. ref_Kind ref = GetObjectKind wl \<and>
       (case wl of RolloutWorkload ro \<Rightarrow> GetRollout ns (ref_Name ref) (Inr ro) \<in> set l
        | DeploymentWorkload dep \<Rightarrow> GetDeployment ns (ref_Name ref) (Inr dep) \<in> set l))
   | _ \<Rightarrow> True))" for ns refs
    by (rule emits_mono [OF emits_conj [OF emits_resolve_owner emits_resolve_owner_chain]]) simp
  show ?thesis
    unfolding ResolveWorkloadFromPod_def Let_def
    by (intro emits_if emits_checked emits_client_call emits_return case_sumI emits_mono [OF owner])
      (auto split: sum.splits option.splits DrainableWorkload.splits)
qed

text \<open>The owner references the controllers follow.\<close>

definition names_replica_set :: "OwnerReference \<Rightarrow> bool" where
  "names_replica_set ref \<longleftrightarrow> ref_Kind ref = ''ReplicaSet'' \<and> ref_APIVersion ref = ''apps/v1''"

definition names_rollout :: "OwnerReference \<Rightarrow> bool" where
  "names_rollout ref \<longleftrightarrow> ref_Kind ref = ''Rollout'' \<and> ref_APIVersion ref = ''argoproj.io/v1alpha1''"

definition names_deployment :: "OwnerReference \<Rightarrow> bool" where
  "names_deployment ref \<longleftrightarrow> ref_Kind ref = ''Deployment'' \<and> ref_APIVersion ref = ''apps/v1''"

lemma find_rs_name_find:
  "find_rs_name refs = (case List.find names_replica_set refs of None \<Rightarrow> '''' | Some ref \<Rightarrow> ref_Name ref)"
  by (induction refs) (auto simp: names_replica_set_def)

definition rollout_requests :: "error + DrainableWorkload option \<Rightarrow> Request list" where
  "rollout_requests r = (case r of Inr (Some (RolloutWorkload ro)) \<Rightarrow>
     [\<lparr>req_Namespace = Namespace (ro_ObjectMeta ro), req_Name = Name (ro_ObjectMeta ro)\<rparr>] | _ \<Rightarrow> [])"

lemma rollout_requests_simps [simp]:
  "rollout_requests (Inl e) = []" "rollout_requests (Inr None) = []" "rollout_requests (Inr (Some (DeploymentWorkload dep))) = []"
  "rollout_requests (Inr (Some (RolloutWorkload ro))) =
     [\<lparr>req_Namespace = Namespace (ro_ObjectMeta ro), req_Name = Name (ro_ObjectMeta ro)\<rparr>]"
  by (simp_all add: rollout_requests_def)

lemma mapPodToRollout_eq: "mapPodToRollout K pod = do { r \<leftarrow> ResolveWorkloadFromPod K pod; ret (rollout_requests r) }"
proof -
  have eq: "(case r of Inr (Some (RolloutWorkload ro)) \<Rightarrow>
      ret [\<lparr>req_Namespace = Namespace (ro_ObjectMeta ro), req_Name = Name (ro_ObjectMeta ro)\<rparr>] | _ \<Rightarrow> ret []) = ret (rollout_requests r)" for r
    by (simp split: sum.split option.split DrainableWorkload.split)
  show ?thesis by (simp only: mapPodToRollout_def eq)
qed

lemma emits_resolve_owner_find:
  "emits (resolve_owner K ns refs) (\<lambda>r l. case List.find (\<lambda>ref. names_rollout ref \<or> names_deployment ref) refs of
     None \<Rightarrow> l = [] \<and> rollout_requests r = []
   | Some owner \<Rightarrow> if names_rollout owner
       then (\<exists>a. l = [GetRollout ns (ref_Name owner) a] \<and> rollout_requests r = (case a of Inl _ \<Rightarrow> [] | Inr ro \<Rightarrow>
         [\<lparr>req_Namespace = Namespace (ro_ObjectMeta ro), req_Name = Name (ro_ObjectMeta ro)\<rparr>]))
       else (\<exists>a. l = [GetDeployment ns (ref_Name owner) a] \<and> rollout_requests r = []))"
proof (induction refs)
  case (Cons ref refs)
  consider "names_rollout ref" | "names_deployment ref" "\<not> names_rollout ref" | "\<not> names_rollout ref" "\<not> names_deployment ref" by blast
  then show ?case
  proof cases
    case 3
    with Cons show ?thesis by (auto simp: names_rollout_def names_deployment_def)
  qed (auto simp: names_rollout_def names_deployment_def api_result_Inl_iff intro!: emits_intros case_sumI)
qed (simp add: emits_return)

text \<open>
  C34. A pod event reaches the Rollout that owns the pod, and nothing else: the controller reads the first
  ReplicaSet among the pod's owners and then the first Rollout or Deployment among that ReplicaSet's,
  all in the pod's namespace, and enqueues a request exactly when this is a Rollout and was
  read; a pod with no such owner, an owner of another kind and every failing read enqueue nothing.
\<close>

theorem pod_event_enqueues_owner:
  "emits (mapPodToRollout K pod) (\<lambda>reqs l.
     case List.find names_replica_set (OwnerReferences (pod_ObjectMeta pod)) of
       None \<Rightarrow> l = [] \<and> reqs = []
     | Some ref \<Rightarrow> if ref_Name ref = '''' then l = [] \<and> reqs = [] else
         (\<exists>ans rest. l = GetReplicaSet (Namespace (pod_ObjectMeta pod)) (ref_Name ref) ans # rest \<and>
           (case ans of Inl _ \<Rightarrow> rest = [] \<and> reqs = []
            | Inr rs \<Rightarrow> (case List.find (\<lambda>ref. names_rollout ref \<or> names_deployment ref) (OwnerReferences (rs_ObjectMeta rs)) of
                None \<Rightarrow> rest = [] \<and> reqs = []
              | Some owner \<Rightarrow> if names_rollout owner
                  then (\<exists>a. rest = [GetRollout (Namespace (pod_ObjectMeta pod)) (ref_Name owner) a] \<and>
                    reqs = (case a of Inl _ \<Rightarrow> [] | Inr ro \<Rightarrow>
                      [\<lparr>req_Namespace = Namespace (ro_ObjectMeta ro), req_Name = Name (ro_ObjectMeta ro)\<rparr>]))
                  else (\<exists>a. rest = [GetDeployment (Namespace (pod_ObjectMeta pod)) (ref_Name owner) a] \<and> reqs = [])))))"
proof (cases "List.find names_replica_set (OwnerReferences (pod_ObjectMeta pod))")
  case None
  then show ?thesis
    unfolding mapPodToRollout_eq ResolveWorkloadFromPod_def Let_def find_rs_name_find
    by (simp, intro emits_bind emits_return) simp_all
next
  case (Some ref)
  then show ?thesis
    unfolding mapPodToRollout_eq ResolveWorkloadFromPod_def Let_def find_rs_name_find
    by (simp only: option.case, intro emits_bind emits_if emits_checked emits_client_call emits_return case_sumI
        emits_mono [OF emits_resolve_owner_find])
      (auto simp: api_result_Inl_iff split: option.split)
qed

section \<open>Restart detection\<close>

text \<open>
  C29. For a positive grace period, a restart counts as stuck exactly when it was requested at or
  before now, at least the grace period ago, and does not count as completed. So no Rollout is ever
  both stuck and completed, and saturation of the elapsed time never matters.
\<close>

theorem stuck_iff_overdue_and_incomplete:
  assumes "0 < sint grace"
  shows "isRestartStuck ro pods grace now \<longleftrightarrow>
     \<not> restartCompletedByArgo ro pods \<and>
     (case ro_RestartAt ro of None \<Rightarrow> False | Some t \<Rightarrow> t \<le> now \<and> sint grace \<le> now - t)"
  using assms time_Sub_less [of grace now "the (ro_RestartAt ro)"]
  by (auto simp: isRestartStuck_def restartCompletedByArgo_def time_Before_def min_int64_def
      split: option.splits)

theorem stuck_iff_overdue_and_incomplete_witness:
  "0 < sint (RestartSurgeGracePeriod demo_config) \<and>
   isRestartStuck demo_rollout [demo_pod ''web-1'' ''n1''] (RestartSurgeGracePeriod demo_config) t0 \<and>
   \<not> restartCompletedByArgo demo_rollout [demo_pod ''web-1'' ''n1'']"
proof -
  have "0 < sint (RestartSurgeGracePeriod demo_config)"
    "isRestartStuck demo_rollout [demo_pod ''web-1'' ''n1''] (RestartSurgeGracePeriod demo_config) t0"
    by code_simp+
  with stuck_iff_overdue_and_incomplete [of "RestartSurgeGracePeriod demo_config" demo_rollout
      "[demo_pod ''web-1'' ''n1'']" t0] show ?thesis by blast
qed

section \<open>Indexes and keys\<close>

text \<open>
  Namespaces have no slash, so the key of a workload determines its namespace and name.
\<close>

lemma workload_key_injective:
  assumes "CHR ''/'' \<notin> set ns" "CHR ''/'' \<notin> set ns'"
  shows "workloadKey ns n = workloadKey ns' n' \<longleftrightarrow> ns = ns' \<and> n = n'"
proof
  assume eq: "workloadKey ns n = workloadKey ns' n'"
  have "takeWhile (\<lambda>c. c \<noteq> CHR ''/'') (workloadKey ns n) = ns"
    "takeWhile (\<lambda>c. c \<noteq> CHR ''/'') (workloadKey ns' n') = ns'"
    using assms by (auto simp: workloadKey_def takeWhile_append)
  with eq show "ns = ns' \<and> n = n'" by (simp add: workloadKey_def)
qed simp

text \<open>The last workload collected under a key is the one the collection holds.\<close>

lemma map_of_fold_update_last:
  "k \<in> wl_key ` set wls \<Longrightarrow>
     \<exists>wl \<in> set wls. map_of (fold (\<lambda>wl. AList.update (wl_key wl) wl) wls ws) k = Some wl"
proof (induction wls arbitrary: ws)
  case (Cons x wls)
  then show ?case
    by (cases "k \<in> wl_key ` set wls") (auto simp: map_of_fold_update_other update_conv)
qed simp

lemma collected_deployment:
  assumes "dep \<in> set deps" "kw \<in> set (range_map K (fold (\<lambda>wl. AList.update (wl_key wl) wl) (drain_workloads ros deps) []))"
    "fst kw = wl_key (DeploymentWorkload dep)"
  shows "\<exists>dep'. snd kw = DeploymentWorkload dep'"
proof -
  let ?ws = "fold (\<lambda>wl. AList.update (wl_key wl) wl) (map RolloutWorkload ros) []"
  have "wl_key (DeploymentWorkload dep) \<in> wl_key ` set (map DeploymentWorkload deps)" using assms(1) by auto
  from map_of_fold_update_last [OF this, of ?ws] assms(2,3) show ?thesis
    by (auto simp: drain_workloads_def in_range_map)
qed

lemma collected_keys:
  "kw \<in> set (range_map K (fold (\<lambda>wl. AList.update (wl_key wl) wl) wls [])) \<Longrightarrow> fst kw = wl_key (snd kw)"
  by (auto simp: in_range_map map_of_collected dest: first_by_key_key)

text \<open>
  C37. The key leaves out the kind: when a Rollout and a Deployment of the same namespace and name are
  both recorded for a node that is gone, no Rollout of that namespace and name is patched, so its
  operation is not aborted.
\<close>

theorem same_name_drops_rollout:
  assumes "Namespace (ro_ObjectMeta ro) = Namespace (dep_ObjectMeta dep)" "Name (ro_ObjectMeta ro) = Name (dep_ObjectMeta dep)"
  shows "emits (abortWorkloadsForNode K n) (\<lambda>r l. \<forall>ros deps rest.
     l = ListRolloutsByDrainNode n (Inr ros) # ListDeploymentsByDrainNode n (Inr deps) # rest \<longrightarrow>
     ro \<in> set ros \<longrightarrow> dep \<in> set deps \<longrightarrow>
     patches_ok (\<lambda>wl'. wl_key wl' = wl_key (RolloutWorkload ro) \<longrightarrow> GetObjectKind wl' = ''Deployment'') rest)"
proof -
  have key: "wl_key (RolloutWorkload ro) = wl_key (DeploymentWorkload dep)" using assms by (simp add: wl_key_def)
  have kept: "wl_key (drain_aborted wl) = wl_key wl" "GetObjectKind (drain_aborted wl) = GetObjectKind wl" for wl
    by (simp_all add: aborted_def restored_def wl_key_def split: sum.split)
  have dropped: "patches_ok (\<lambda>wl'. wl_key wl' = wl_key (RolloutWorkload ro) \<longrightarrow> GetObjectKind wl' = ''Deployment'') l"
    if "patches_ok (\<lambda>wl'. \<exists>wl \<in> wl_values (range_map K (fold (\<lambda>wl. AList.update (wl_key wl) wl) (drain_workloads ros deps) [])).
      wl' = drain_aborted wl) l" "dep \<in> set deps" for l ros deps
    using that(1)
  proof (rule patches_ok_mono, intro impI)
    fix wl' assume wl': "\<exists>wl \<in> wl_values (range_map K (fold (\<lambda>wl. AList.update (wl_key wl) wl) (drain_workloads ros deps) [])).
      wl' = drain_aborted wl" and same: "wl_key wl' = wl_key (RolloutWorkload ro)"
    then obtain kw where kw: "kw \<in> set (range_map K (fold (\<lambda>wl. AList.update (wl_key wl) wl) (drain_workloads ros deps) []))"
      "wl' = drain_aborted (snd kw)" by (auto simp: wl_values_def)
    with same key have "fst kw = wl_key (DeploymentWorkload dep)" by (simp add: collected_keys kept)
    from collected_deployment [OF that(2) kw(1) this] kw(2) show "GetObjectKind wl' = ''Deployment''"
      by (auto simp: kept dep_GetObjectKind_def)
  qed
  show ?thesis
    unfolding abortWorkloadsForNode_def findWorkloadsWithDrainNode_def drain_workloads_def [symmetric]
    by (intro emits_checked emits_client_call emits_return emits_case_option case_sumI case_vc
        emits_mono [OF emits_abort_all]) (auto intro: dropped)
qed

definition demo_twins :: cluster where
  "demo_twins = demo_cluster\<lparr>c_rollouts := [ro_SetAnnotations (Some [AnnotationDrainNode \<mapsto> ''n1'']) demo_rollout],
     c_deployments := [dep_SetAnnotations (Some [AnnotationDrainNode \<mapsto> ''n1'']) demo_deployment]\<rparr>"

definition demo_twins_run :: "api_call list" where
  "demo_twins_run = trace_of (abortWorkloadsForNode sim ''n1'') demo_twins"

lemma emits_abort_lists:
  "emits (abortWorkloadsForNode K n) (\<lambda>r l. writes l = [] \<or>
     (\<exists>ros deps rest. l = ListRolloutsByDrainNode n (Inr ros) # ListDeploymentsByDrainNode n (Inr deps) # rest))"
  unfolding abortWorkloadsForNode_def findWorkloadsWithDrainNode_def
  by (intro emits_checked emits_client_call emits_return emits_case_option case_sumI case_vc
      emits_mono [OF emits_abort_all]) (auto simp: api_result_Inl_iff)

lemma demo_twins_run_lists:
  "case demo_twins_run of ListRolloutsByDrainNode _ (Inr ros) # ListDeploymentsByDrainNode _ (Inr deps) # rest \<Rightarrow>
     (case (ros, deps) of ([ro], [dep]) \<Rightarrow> Namespace (ro_ObjectMeta ro) = Namespace (dep_ObjectMeta dep) \<and>
        Name (ro_ObjectMeta ro) = Name (dep_ObjectMeta dep) | _ \<Rightarrow> False) | _ \<Rightarrow> False"
  "writes demo_twins_run \<noteq> []"
  by code_simp+

theorem same_name_drops_rollout_witness:
  "\<exists>ro dep rest. demo_twins_run = ListRolloutsByDrainNode ''n1'' (Inr [ro]) # ListDeploymentsByDrainNode ''n1'' (Inr [dep]) # rest \<and>
     writes rest \<noteq> [] \<and>
     patches_ok (\<lambda>wl'. wl_key wl' = wl_key (RolloutWorkload ro) \<longrightarrow> GetObjectKind wl' = ''Deployment'') rest"
proof -
  obtain ros deps rest where
    l: "demo_twins_run = ListRolloutsByDrainNode ''n1'' (Inr ros) # ListDeploymentsByDrainNode ''n1'' (Inr deps) # rest"
    using emits_run [OF emits_abort_lists, of sim "''n1''" demo_twins] demo_twins_run_lists(2)
    unfolding demo_twins_run_def [symmetric] by blast
  from demo_twins_run_lists(1) have "case (ros, deps) of ([ro], [dep]) \<Rightarrow>
      Namespace (ro_ObjectMeta ro) = Namespace (dep_ObjectMeta dep) \<and> Name (ro_ObjectMeta ro) = Name (dep_ObjectMeta dep) | _ \<Rightarrow> False"
    unfolding l by (simp only: list.case api_call.case sum.case)
  then obtain ro dep where lists: "ros = [ro]" "deps = [dep]" "Namespace (ro_ObjectMeta ro) = Namespace (dep_ObjectMeta dep)"
    "Name (ro_ObjectMeta ro) = Name (dep_ObjectMeta dep)" by (auto split: list.splits)
  from emits_run [OF same_name_drops_rollout [OF lists(3,4)], of sim "''n1''" demo_twins] l lists(1,2)
  have "patches_ok (\<lambda>wl'. wl_key wl' = wl_key (RolloutWorkload ro) \<longrightarrow> GetObjectKind wl' = ''Deployment'') rest"
    unfolding demo_twins_run_def [symmetric] by simp
  moreover have "writes rest \<noteq> []" using demo_twins_run_lists(2) unfolding l by simp
  ultimately show ?thesis using l lists(1,2) by blast
qed

section \<open>Limits\<close>

text \<open>
  C38. The tripled timeout is computed in 64 bits without a check: with a readiness timeout between about
  97 and 194 years, which validation accepts, a dated operation counts as overrun from its first
  nanosecond on, and the next reconcile aborts it.
\<close>

theorem tripled_timeout_wraps:
  assumes "Validate cfg = None" "2 ^ 63 \<le> 3 * sint (ReadinessTimeout cfg)" "3 * sint (ReadinessTimeout cfg) < 2 ^ 64"
    and "drain_state wl \<noteq> ''''" "drain_state wl \<noteq> DrainStateDone" "parseDrainStart (wl_annotations wl) = Some start"
  shows "emits (reconcileWorkload K cfg wl nodeName) (\<lambda>r l. \<exists>now rest. l = ReadClock now # rest \<and>
     (start \<le> now \<longrightarrow> (\<exists>ev l'. rest = RecordEvent (Object wl) ev # l' \<and> abort_trace drain_aborted wl r l')))"
proof -
  have pos: "0 < sint (ReadinessTimeout cfg)" using assms(1) by (auto simp: Validate_None_iff)
  have limit: "timeout_limit (sint (ReadinessTimeout cfg)) < 0" using assms(2,3) by (simp add: timeout_limit_def)
  show ?thesis
    by (rule emits_mono [OF drain_reconcile_timed [OF assms(4-6) pos]]) (use limit in \<open>auto split: if_splits\<close>)
qed

definition demo_century :: Config where
  "demo_century = demo_config\<lparr>ReadinessTimeout := 2 ^ 62\<rparr>"

lemma demo_century_valid:
  "Validate demo_century = None" "2 ^ 63 \<le> 3 * sint (ReadinessTimeout demo_century)"
  "3 * sint (ReadinessTimeout demo_century) < 2 ^ 64"
  by code_simp+

definition demo_century_run :: "api_call list" where
  "demo_century_run = trace_of (reconcileWorkload sim demo_century (demo_surging DrainStateScaledUp) ''n1'') demo_cluster"

lemma demo_century_clock: "case demo_century_run of ReadClock t # _ \<Rightarrow> t = t0 | _ \<Rightarrow> False"
  by code_simp

theorem tripled_timeout_wraps_witness:
  "Validate demo_century = None \<and>
   (\<exists>ev r l'. demo_century_run = ReadClock t0 # RecordEvent (Object (demo_surging DrainStateScaledUp)) ev # l' \<and>
      abort_trace drain_aborted (demo_surging DrainStateScaledUp) r l')"
proof -
  have st: "drain_state (demo_surging DrainStateScaledUp) \<noteq> ''''" "drain_state (demo_surging DrainStateScaledUp) \<noteq> DrainStateDone"
    by simp_all
  obtain now rest where l: "demo_century_run = ReadClock now # rest" and
    c: "t0 \<le> now \<Longrightarrow> \<exists>r ev l'. rest = RecordEvent (Object (demo_surging DrainStateScaledUp)) ev # l' \<and>
      abort_trace drain_aborted (demo_surging DrainStateScaledUp) r l'"
    using emits_run [OF tripled_timeout_wraps [OF demo_century_valid st demo_surging_start],
        of sim "''n1''" demo_cluster]
    unfolding demo_century_run_def [symmetric] by blast
  from demo_century_clock have "now = t0" unfolding l by (simp only: list.case api_call.case)
  with c l demo_century_valid(1) show ?thesis by auto
qed

end
