(* ===== verification/Lifecycle.thy ===== *)
theory Lifecycle
  imports DrainProperties
begin

text \<open>
  Progress of a drain surge: what a reconcile writes when the cluster answers favourably, phase by
  phase, and from that the length of an operation. A favourable answer is no error, pods that are
  where the phase waits for them, a matching budget, and a clock that is not past the timeout.
\<close>

section \<open>Favourable answers\<close>

definition good_answer :: "'s platform \<Rightarrow> Config \<Rightarrow> string \<Rightarrow> DrainableWorkload \<Rightarrow> api_call \<Rightarrow> bool" where
  "good_answer K cfg nodeName wl c \<longleftrightarrow>
     (case c of
        ReadClock t \<Rightarrow> \<not> drain_expired cfg t wl
      | ListMatchingPods _ _ ans \<Rightarrow> (case ans of Inl _ \<Rightarrow> False | Inr pods \<Rightarrow>
          (drain_state wl = DrainStateScaledUp \<longrightarrow> ready_pod_elsewhere nodeName pods) \<and>
          (drain_state wl = DrainStateReady \<longrightarrow> \<not> live_pod_on_node nodeName pods))
      | ListPDBs _ ans \<Rightarrow> (case ans of Inl _ \<Rightarrow> False | Inr pdbs \<Rightarrow>
          find_pdb K (fst (pf_Requirements K (GetPodSelector K wl))) pdbs)
      | ListHPAs _ ans \<Rightarrow> (case ans of Inl _ \<Rightarrow> False | Inr hpas \<Rightarrow>
          (case find_hpa (Name (GetObjectMeta wl)) (GetObjectKind wl) hpas of None \<Rightarrow> True | Some hpa \<Rightarrow> hpa_fits hpa))
      | PatchObject _ _ ans \<Rightarrow> \<not> isl ans
      | PatchHPA _ _ _ ans \<Rightarrow> \<not> isl ans
      | _ \<Rightarrow> True)"

abbreviation favourable :: "'s platform \<Rightarrow> Config \<Rightarrow> string \<Rightarrow> DrainableWorkload \<Rightarrow> api_call list \<Rightarrow> bool" where
  "favourable K cfg nodeName wl \<equiv> list_all (good_answer K cfg nodeName wl)"

lemma Inl_api_result_iff: "Inl e = api_result r \<longleftrightarrow> (\<exists>a. r = Inl a \<and> e = Api a)"
  by (cases r) auto

section \<open>Reconciles of an operation under way\<close>

lemma emits_reconcile_active:
  assumes "drain_state wl \<noteq> ''''" "drain_node wl \<in> {'''', nodeName}"
    and expired: "\<And>now ev r l. drain_expired cfg now wl \<Longrightarrow> Q r (ReadClock now # RecordEvent (Object wl) ev # l)"
    and handled: "\<And>pre. patched_objects pre = [] \<Longrightarrow> hpa_minima pre = [] \<Longrightarrow>
      emits (drain_dispatch K cfg wl nodeName (drain_state wl)) (\<lambda>r l. Q r (pre @ l))"
  shows "emits (reconcileWorkload K cfg wl nodeName) Q"
proof -
  have at_once: "emits (drain_dispatch K cfg wl nodeName (drain_state wl)) Q"
    using handled [of "[]"] by simp
  have timed: "emits (drain_dispatch K cfg wl nodeName (drain_state wl)) (\<lambda>r l. Q r (ReadClock now # l))" for now
    using handled [of "[ReadClock now]"] by simp
  show ?thesis
  proof (cases "drain_state wl = DrainStateDone")
    case True
    with assms(2) at_once show ?thesis by (auto simp: reconcileWorkload_def intro!: emits_intros)
  next
    case False
    show ?thesis
      unfolding reconcileWorkload_def Let_def
      by (rule emits_bind, simp only: False assms(1) simp_thms if_True DrainStateNone_def, rule emits_drain_overrun)
        (use False assms(1,2) at_once timed in \<open>auto intro!: emits_return expired simp: drain_expired_def\<close>)
  qed
qed

lemma progress_active:
  assumes "drain_state wl \<noteq> ''''" "drain_node wl \<in> {'''', nodeName}"
    and "emits (drain_dispatch K cfg wl nodeName (drain_state wl)) (\<lambda>r l. favourable K cfg nodeName wl l \<longrightarrow>
      writes_exactly wl' minima l \<and> \<not> isl r)"
  shows "emits (reconcileWorkload K cfg wl nodeName) (\<lambda>r l. favourable K cfg nodeName wl l \<longrightarrow>
      writes_exactly wl' minima l \<and> \<not> isl r)"
  by (rule emits_reconcile_active [OF assms(1,2)])
    (auto simp: good_answer_def intro!: emits_mono [OF assms(3)])

lemmas good_simps = good_answer_def api_result_Inl_iff Inl_api_result_iff annotate_to_state_original

lemma progress_scaled_up:
  assumes "drain_state wl = DrainStateScaledUp" "drain_node wl \<in> {'''', nodeName}"
    "getOriginalReplicas (wl_annotations wl) = Inr k"
    "anno_get (wl_annotations wl) AnnotationHPAName \<noteq> '''' \<or> sint k < sint (GetReplicas wl)"
  shows "emits (reconcileWorkload K cfg wl nodeName) (\<lambda>r l. favourable K cfg nodeName wl l \<longrightarrow>
      writes_exactly (to_state AnnotationDrainState DrainStateReady wl) [] l \<and> \<not> isl r)"
proof (rule progress_active)
  show "emits (drain_dispatch K cfg wl nodeName (drain_state wl)) (\<lambda>r l. favourable K cfg nodeName wl l \<longrightarrow>
      writes_exactly (to_state AnnotationDrainState DrainStateReady wl) [] l \<and> \<not> isl r)"
    using assms(4) unfolding drain_dispatch_def handleWaitReady_def waitReady_check_def
    by (simp only: assms(1) DrainStateNone_def key_simps if_True if_False)
     (intro case_vc emits_intros case_sumI, auto simp: good_simps assms)
qed (use assms in auto)

lemma progress_ready:
  assumes "drain_state wl = DrainStateReady" "drain_node wl \<in> {'''', nodeName}"
    "getOriginalReplicas (wl_annotations wl) = Inr k"
    "anno_get (wl_annotations wl) AnnotationHPAName = h"
    "h \<noteq> '''' \<Longrightarrow> strconv_Atoi (anno_get (wl_annotations wl) AnnotationHPAOriginalMinReplicas) = Inr m"
  shows "emits (reconcileWorkload K cfg wl nodeName) (\<lambda>r l. favourable K cfg nodeName wl l \<longrightarrow>
      writes_exactly (to_state AnnotationDrainState DrainStateDraining (if h = '''' then SetReplicas k wl else wl))
        (if h = '''' then [] else [(h, word_of_int m)]) l \<and> \<not> isl r)"
proof (rule progress_active)
  show "emits (drain_dispatch K cfg wl nodeName (drain_state wl)) (\<lambda>r l. favourable K cfg nodeName wl l \<longrightarrow>
      writes_exactly (to_state AnnotationDrainState DrainStateDraining (if h = '''' then SetReplicas k wl else wl))
        (if h = '''' then [] else [(h, word_of_int m)]) l \<and> \<not> isl r)"
    using assms(4,5) unfolding drain_dispatch_def handleWaitEviction_def
    by (simp only: assms(1) DrainStateNone_def key_simps if_True if_False)
     (intro case_vc emits_intros case_sumI, auto simp: good_simps assms(1,3) elim!: restore_trace.cases)
qed (use assms in auto)

lemma progress_draining:
  assumes "drain_state wl = DrainStateDraining" "drain_node wl \<in> {'''', nodeName}"
    "getOriginalReplicas (wl_annotations wl) = Inr k"
  shows "emits (reconcileWorkload K cfg wl nodeName) (\<lambda>r l. favourable K cfg nodeName wl l \<longrightarrow>
      writes_exactly (to_state AnnotationDrainState DrainStateDone
        (if anno_get (wl_annotations wl) AnnotationHPAName = '''' \<and> GetReplicas wl \<noteq> k then SetReplicas k wl else wl)) [] l \<and>
      \<not> isl r)"
proof (rule progress_active)
  show "emits (drain_dispatch K cfg wl nodeName (drain_state wl)) (\<lambda>r l. favourable K cfg nodeName wl l \<longrightarrow>
      writes_exactly (to_state AnnotationDrainState DrainStateDone
        (if anno_get (wl_annotations wl) AnnotationHPAName = '''' \<and> GetReplicas wl \<noteq> k then SetReplicas k wl else wl)) [] l \<and>
      \<not> isl r)"
    unfolding drain_dispatch_def handleScaleDown_def
    by (simp only: assms(1) DrainStateNone_def key_simps if_True if_False)
     (intro case_vc emits_intros case_sumI, auto simp: good_simps assms)
qed (use assms in auto)

lemma progress_done:
  assumes "drain_state wl = DrainStateDone" "drain_node wl \<in> {'''', nodeName}"
  shows "emits (reconcileWorkload K cfg wl nodeName) (\<lambda>r l. favourable K cfg nodeName wl l \<longrightarrow>
      writes_exactly (SetAnnotations (clearDrainAnnotations (wl_annotations wl)) wl) [] l \<and> \<not> isl r)"
proof (rule progress_active)
  show "emits (drain_dispatch K cfg wl nodeName (drain_state wl)) (\<lambda>r l. favourable K cfg nodeName wl l \<longrightarrow>
      writes_exactly (SetAnnotations (clearDrainAnnotations (wl_annotations wl)) wl) [] l \<and> \<not> isl r)"
    unfolding drain_dispatch_def handleCleanup_def
    by (simp only: assms(1) DrainStateNone_def key_simps if_True if_False)
     (intro case_vc emits_intros case_sumI, auto simp: good_simps assms)
qed (use assms in auto)

section \<open>The start\<close>

lemma shouldProcess_eligible:
  assumes "drain_eligible cfg nodeName wl"
  shows "emits (shouldProcess K cfg wl nodeName) (\<lambda>ok l. favourable K cfg nodeName wl l \<longrightarrow>
     ok \<and> patched_objects l = [] \<and> hpa_minima l = [])"
  using assms unfolding shouldProcess_def drain_eligible_def
  by (intro emits_intros case_sumI) (auto intro!: emits_intros simp: good_simps hpa_fits_def split: option.splits)

lemma handlePending_favourable:
  assumes "drain_state wl = ''''" "GetReplicas wl = 1"
  shows "emits (handlePending K cfg wl nodeName) (\<lambda>r l. favourable K cfg nodeName wl l \<longrightarrow>
     (\<exists>wl'. patched_objects l = [Object wl'] \<and> starts (start_record wl nodeName) wl l wl' (hpa_minima l)) \<and> \<not> isl r)"
  unfolding handlePending_def
  by (intro case_vc emits_intros case_sumI)
    (auto simp: good_simps assms scaled_start_def hpa_start_def start_record_def hpa_fits_def intro!: hpa_readI
      intro: starts.intros)

lemma progress_new:
  assumes "drain_state wl = ''''" "drain_eligible cfg nodeName wl"
  shows "emits (reconcileWorkload K cfg wl nodeName) (\<lambda>r l. favourable K cfg nodeName wl l \<longrightarrow>
     (\<exists>wl'. patched_objects l = [Object wl'] \<and> starts (start_record wl nodeName) wl l wl' (hpa_minima l)) \<and> \<not> isl r)"
proof -
  have "GetReplicas wl = 1" using assms(2) by (simp add: drain_eligible_def)
  note start = handlePending_favourable [OF assms(1) this]
  have "reconcileWorkload K cfg wl nodeName = do {
      ok \<leftarrow> shouldProcess K cfg wl nodeName;
      (if \<not> ok then ret (Inr ctrl_Result) else handlePending K cfg wl nodeName) }"
    using assms(1) by (simp add: reconcileWorkload_def drain_dispatch_def DrainStateNone_def cong: if_cong)
  then show ?thesis
    by (simp only:) (intro emits_bind emits_mono [OF shouldProcess_eligible [OF assms(2)]] emits_if,
      auto intro!: emits_return emits_mono [OF start] dest: starts_append)
qed

section \<open>The stages of a drain\<close>

abbreviation drain_stage :: "Config \<Rightarrow> string \<Rightarrow> DrainableWorkload \<Rightarrow> nat \<Rightarrow> DrainableWorkload \<Rightarrow> api_call list \<Rightarrow> bool" where
  "drain_stage cfg nodeName \<equiv> surge_stage AnnotationDrainState drainAnnotationKeys
     (\<lambda>wl. drain_state wl = '''' \<and> drain_eligible cfg nodeName wl \<and> anno_get (wl_annotations wl) AnnotationHPAName = '''')
     (\<lambda>wl. drain_node wl = nodeName)"

lemma drain_node_to_state [simp]: "drain_node (to_state AnnotationDrainState s wl) = drain_node wl"
  by (simp add: to_state_def)

lemma start_drain_node:
  "starts (start_record wl nodeName) wl l wl' minima \<Longrightarrow> drain_node wl' = nodeName"
  by (auto elim!: starts.cases simp: start_record_def)

lemma stage_start:
  assumes "starts (start_record wl nodeName) wl l wl' (hpa_minima l)" "patched_objects l = [Object wl']"
    "GetReplicas wl = 1" "anno_get (wl_annotations wl) AnnotationHPAName = ''''" "hpa_minima l0 = []"
  shows "drain_stage cfg nodeName wl 1 (patched_last wl l) (l0 @ l)"
  by (rule drain.stage_started [OF assms(1-4)])
    (use assms(5) start_drain_node [OF assms(1)] assms(3) in \<open>auto simp: start_record_def keeps_def anno_lookup_make key_list_defs\<close>)

lemma drain_advance:
  assumes "drain_stage cfg nodeName wl0 i wl l0" "i < 5"
  shows "emits (reconcileWorkload K cfg wl nodeName) (\<lambda>r l. favourable K cfg nodeName wl l \<longrightarrow>
     drain_stage cfg nodeName wl0 (Suc i) (patched_last wl l) (l0 @ l))"
proof -
  consider "i = 0" | "i = 1" | "i = 2" | "i = 3" | "i = 4" using assms(2) by fastforce
  then show ?thesis
  proof cases
    case 1
    with assms(1) have wl: "wl = wl0" "hpa_minima l0 = []" "drain_state wl0 = ''''" "drain_eligible cfg nodeName wl0"
      "anno_get (wl_annotations wl0) AnnotationHPAName = ''''" by (auto simp: surge_stage_def)
    moreover have "GetReplicas wl0 = 1" using wl(4) by (simp add: drain_eligible_def)
    ultimately show ?thesis
      using 1 by (auto intro!: emits_mono [OF progress_new [OF wl(3,4)]] intro: stage_start [unfolded One_nat_def])
  next
    case 2
    with assms(1) have "drain_node wl = nodeName" "drain_state wl = DrainStateScaledUp"
      "getOriginalReplicas (wl_annotations wl) = Inr 1"
      "anno_get (wl_annotations wl) AnnotationHPAName \<noteq> '''' \<or> sint (1 :: int32) < sint (GetReplicas wl)"
      by (auto simp: surge_stage_def at_stage_def)
    then show ?thesis
      using assms(1) 2 by (auto intro!: emits_mono [OF progress_scaled_up [where k = 1]] drain.stage_up)
  next
    case 3
    then obtain m where f: "drain_node wl = nodeName" "drain_state wl = DrainStateReady"
      "getOriginalReplicas (wl_annotations wl) = Inr 1"
      "anno_get (wl_annotations wl) AnnotationHPAName \<noteq> '''' \<Longrightarrow>
         strconv_Atoi (anno_get (wl_annotations wl) AnnotationHPAOriginalMinReplicas) = Inr m"
      using assms(1) by (auto simp: surge_stage_def at_stage_def)
    then have "emits (reconcileWorkload K cfg wl nodeName) (\<lambda>r l. favourable K cfg nodeName wl l \<longrightarrow>
        writes_exactly (to_state AnnotationDrainState DrainStateDraining
            (if anno_get (wl_annotations wl) AnnotationHPAName = '''' then SetReplicas 1 wl else wl))
          (if anno_get (wl_annotations wl) AnnotationHPAName = '''' then []
           else [(anno_get (wl_annotations wl) AnnotationHPAName, word_of_int m)]) l \<and> \<not> isl r)"
      by (intro progress_ready) auto
    then show ?thesis
      by (rule emits_mono, intro impI, intro drain.stage_down [OF assms(1) 3 refl _ _ refl, where m = m])
        (use f(1,4) in auto)
  next
    case 4
    with assms(1) have f: "drain_node wl = nodeName" "drain_state wl = DrainStateDraining"
      "getOriginalReplicas (wl_annotations wl) = Inr 1" "GetReplicas wl = 1"
      by (auto simp: surge_stage_def at_stage_def)
    show ?thesis
      by (rule emits_mono [OF progress_draining [OF f(2) _ f(3)]], use f in simp,
          intro impI, rule drain.stage_finish [OF assms(1) 4 _ refl]) (use f in auto)
  next
    case 5
    with assms(1) have f: "drain_node wl = nodeName" "drain_state wl = DrainStateDone"
      by (auto simp: surge_stage_def at_stage_def)
    show ?thesis
      by (rule emits_mono [OF progress_done [OF f(2)]], use f in simp,
          intro impI, rule drain.stage_clear [OF assms(1) 5 _ refl]) (use f in auto)
  qed
qed

interpretation drain_progress: staged_run "good_answer K cfg nodeName" "\<lambda>wl. reconcileWorkload K cfg wl nodeName"
  "drain_stage cfg nodeName wl0" 5 for K :: "'s platform" and cfg nodeName wl0
  by unfold_locales (rule drain_advance, assumption+, rule surge_stage_idle)

section \<open>Completion\<close>

text \<open>
  C11. A drain surge ends. Take any sequence of reconciles of an eligible workload with no operation and no
  autoscaler on record, in which each either has its calls answered favourably or finds that it has
  nothing to write yet: by the fifth favourable one the states scaled-up, ready, draining, done and none
  have been written, in this order and no others. The last object has one replica again, none of
  the owned annotations, and every other annotation as before. Of the autoscaler nothing is written, or,
  when one was found, its minimum is set to two and then back to the value it was read with.
\<close>

theorem drain_completes:
  assumes "drain_state wl = ''''" "drain_eligible cfg nodeName wl" "anno_get (wl_annotations wl) AnnotationHPAName = ''''"
    and "steady_run (good_answer K cfg nodeName) (\<lambda>wl. reconcileWorkload K cfg wl nodeName) wl ws"
      "good_rounds (good_answer K cfg nodeName) (\<lambda>wl. reconcileWorkload K cfg wl nodeName) wl ws = 5"
  shows "remdups_adj (map drain_state (wl # run_stages (\<lambda>wl. reconcileWorkload K cfg wl nodeName) wl ws)) =
       ['''', DrainStateScaledUp, DrainStateReady, DrainStateDraining, DrainStateDone, ''''] \<and>
     GetReplicas (last (wl # run_stages (\<lambda>wl. reconcileWorkload K cfg wl nodeName) wl ws)) = 1 \<and>
     cleared drainAnnotationKeys (wl_annotations wl)
       (wl_annotations (last (wl # run_stages (\<lambda>wl. reconcileWorkload K cfg wl nodeName) wl ws))) \<and>
     settled wl (run_calls (\<lambda>wl. reconcileWorkload K cfg wl nodeName) wl ws)"
  using surge_run_completes [OF drain_progress.staged_run_axioms _ assms(4,5)] assms(1-3) by simp

lemma drain_expired_code [code]:
  "drain_expired cfg now wl \<longleftrightarrow> drain_state wl \<noteq> '''' \<and> drain_state wl \<noteq> DrainStateDone \<and>
     (case parseDrainStart (wl_annotations wl) of
        None \<Rightarrow> False
      | Some start \<Rightarrow> 3 * ReadinessTimeout cfg <s time_Sub now start \<or> ReadinessTimeout cfg <s time_Sub now start)"
  by (simp add: drain_expired_def split: option.splits)

text \<open>A drain of node \<^verbatim>\<open>n1\<close>: the second pod appears, the first is evicted. The objects it goes through.\<close>

definition demo_drain :: "(cluster, api_call) world list" where
  "demo_drain = map start_world
     [demo_cluster,
      demo_cluster\<lparr>c_now := t0 + 60 * nanos, c_pods := [demo_pod ''web-1'' ''n1'', demo_pod ''web-2'' ''n2'']\<rparr>,
      demo_cluster\<lparr>c_now := t0 + 90 * nanos, c_pods := [demo_pod ''web-2'' ''n2'']\<rparr>,
      demo_cluster\<lparr>c_now := t0 + 95 * nanos\<rparr>, demo_cluster]"

definition demo_started :: DrainableWorkload where
  "demo_started = scaled_start (DeploymentWorkload demo_deployment) ''n1'' t0"

definition demo_draining :: DrainableWorkload where
  "demo_draining = to_state AnnotationDrainState DrainStateDraining (SetReplicas 1 (demo_surging DrainStateReady))"

abbreviation demo_calls :: "DrainableWorkload \<Rightarrow> nat \<Rightarrow> api_call list" where
  "demo_calls wl i \<equiv> calls_of (reconcileWorkload sim demo_config wl ''n1'') (demo_drain ! i)"

lemma demo_eligible:
  "drain_eligible demo_config ''n1'' (DeploymentWorkload demo_deployment)"
  "anno_get (wl_annotations (DeploymentWorkload demo_deployment)) AnnotationHPAName = ''''"
  by code_simp+

lemma demo_fav1: "favourable sim demo_config ''n1'' (DeploymentWorkload demo_deployment) (demo_calls (DeploymentWorkload demo_deployment) 0)"
  by code_simp

lemma demo_fav2: "favourable sim demo_config ''n1'' demo_started (demo_calls demo_started 1)"
  by code_simp

lemma demo_fav3: "favourable sim demo_config ''n1'' (demo_surging DrainStateReady) (demo_calls (demo_surging DrainStateReady) 2)"
  by code_simp

lemma demo_fav4: "favourable sim demo_config ''n1'' demo_draining (demo_calls demo_draining 3)"
  by code_simp

lemma demo_fav5: "favourable sim demo_config ''n1'' (to_state AnnotationDrainState DrainStateDone demo_draining)
    (demo_calls (to_state AnnotationDrainState DrainStateDone demo_draining) 4)"
  by code_simp

lemma demo_first_calls: "list_all (\<lambda>c. case c of ReadClock t \<Rightarrow> t = t0 | ListHPAs _ ans \<Rightarrow> (case ans of Inr [] \<Rightarrow> True | _ \<Rightarrow> False)
    | _ \<Rightarrow> True) (demo_calls (DeploymentWorkload demo_deployment) 0)"
  by code_simp

lemma demo_first: "patched_last (DeploymentWorkload demo_deployment) (demo_calls (DeploymentWorkload demo_deployment) 0) = demo_started"
proof -
  let ?l = "demo_calls (DeploymentWorkload demo_deployment) 0"
  from emits_calls [OF progress_new [OF demo_fresh demo_eligible(1)]] demo_fav1 obtain wl' where
    wl': "patched_objects ?l = [Object wl']"
      "starts (start_record (DeploymentWorkload demo_deployment) ''n1'') (DeploymentWorkload demo_deployment) ?l wl' (hpa_minima ?l)"
    by blast
  from wl'(2) have "wl' = demo_started"
  proof cases
    case (scaled now)
    with demo_first_calls have "now = t0" by (auto simp: list_all_iff)
    with scaled show ?thesis by (simp add: demo_started_def scaled_start_def)
  next
    case (autoscaled now hpa)
    with demo_first_calls show ?thesis
      by (fastforce simp: list_all_iff hpa_read_def split: list.splits)
  qed
  with patched_last_one [OF wl'(1)] show ?thesis by simp
qed

text \<open>The later objects, by the progress of the handlers.\<close>

lemma demo_surging_reads:
  "drain_state demo_started = DrainStateScaledUp" "drain_node demo_started = ''n1''" "GetReplicas demo_started = 2"
  "getOriginalReplicas (wl_annotations demo_started) = Inr 1" "anno_get (wl_annotations demo_started) AnnotationHPAName = ''''"
  "getOriginalReplicas (wl_annotations (demo_surging s)) = Inr 1"
  "anno_get (wl_annotations (demo_surging s)) AnnotationHPAName = ''''"
  using demo_eligible(1,2)
  by (simp_all add: demo_started_def demo_surging_def scaled_start_def start_record_def to_state_def drain_eligible_def
      del: GetObjectMeta.simps GetReplicas.simps SetReplicas.simps SetAnnotations.simps)

lemma demo_draining_reads:
  "drain_state demo_draining = DrainStateDraining" "drain_node demo_draining = ''n1''" "GetReplicas demo_draining = 1"
  "getOriginalReplicas (wl_annotations demo_draining) = Inr 1" "anno_get (wl_annotations demo_draining) AnnotationHPAName = ''''"
  using demo_surging_reads(6,7) [of DrainStateReady] by (simp_all add: demo_draining_def to_state_def)

lemma demo_second: "patched_last demo_started (demo_calls demo_started 1) = demo_surging DrainStateReady"
  using progress_calls [OF progress_scaled_up [where k = 1] demo_fav2]
  by (simp add: demo_surging_reads demo_surging_def demo_started_def [symmetric] del: One_nat_def)

lemma demo_third: "patched_last (demo_surging DrainStateReady) (demo_calls (demo_surging DrainStateReady) 2) = demo_draining"
  using progress_calls [OF progress_ready [where k = 1 and h = "''''"] demo_fav3] by (simp add: demo_surging_reads demo_draining_def)

lemma demo_fourth: "patched_last demo_draining (demo_calls demo_draining 3) = to_state AnnotationDrainState DrainStateDone demo_draining"
  using progress_calls [OF progress_draining [where k = 1] demo_fav4] by (simp add: demo_draining_reads)

text \<open>The rounds of the run: after the start one in which the second pod is not there yet.\<close>

definition demo_rounds :: "(cluster, api_call) world list" where
  "demo_rounds = [demo_drain ! 0, start_world (demo_cluster\<lparr>c_now := t0 + 30 * nanos\<rparr>), demo_drain ! 1, demo_drain ! 2,
     demo_drain ! 3, demo_drain ! 4]"

abbreviation demo_wait :: "api_call list" where
  "demo_wait \<equiv> calls_of (reconcileWorkload sim demo_config demo_started ''n1'') (start_world (demo_cluster\<lparr>c_now := t0 + 30 * nanos\<rparr>))"

lemma demo_wait_quiet: "writes demo_wait = []" "\<not> favourable sim demo_config ''n1'' demo_started demo_wait"
  by code_simp+

lemma demo_drain_steady:
  "steady_run (good_answer sim demo_config ''n1'') (\<lambda>wl. reconcileWorkload sim demo_config wl ''n1'')
     (DeploymentWorkload demo_deployment) demo_rounds"
  "good_rounds (good_answer sim demo_config ''n1'') (\<lambda>wl. reconcileWorkload sim demo_config wl ''n1'')
     (DeploymentWorkload demo_deployment) demo_rounds = 5"
  unfolding demo_rounds_def
  using demo_fav1 demo_fav2 demo_fav3 demo_fav4 demo_fav5 demo_wait_quiet
  by (simp_all add: Let_def demo_first demo_second demo_third demo_fourth del: One_nat_def)

theorem drain_completes_witness:
  "remdups_adj (map drain_state (DeploymentWorkload demo_deployment #
       run_stages (\<lambda>wl. reconcileWorkload sim demo_config wl ''n1'') (DeploymentWorkload demo_deployment) demo_rounds)) =
     ['''', DrainStateScaledUp, DrainStateReady, DrainStateDraining, DrainStateDone, '''']"
  using drain_completes [OF demo_fresh demo_eligible(1,2) demo_drain_steady] by blast

end
