(* ===== verification/Bookkeeping.thy ===== *)
theory Bookkeeping
  imports Lifecycle
begin

text \<open>
  What the drain controller keeps true of the values it stores and returns: the annotations of an
  operation stay readable, the requeue times stay in range, and the autoscaler is only ever written
  with the raised or the recorded minimum.
\<close>

section \<open>Typed annotations\<close>

text \<open>
  The drain annotations hold values of their types: a state the controller knows, and while there is
  one a replica count, a date, and for a recorded autoscaler a minimum.
\<close>

definition drain_typed :: "DrainableWorkload \<Rightarrow> bool" where
  "drain_typed wl \<longleftrightarrow>
     drain_state wl \<in> {'''', DrainStateScaledUp, DrainStateReady, DrainStateDraining, DrainStateDone} \<and>
     (drain_state wl \<noteq> '''' \<longrightarrow> \<not> isl (getOriginalReplicas (wl_annotations wl)) \<and>
        parseDrainStart (wl_annotations wl) \<noteq> None) \<and>
     (anno_get (wl_annotations wl) AnnotationHPAName \<noteq> '''' \<longrightarrow>
        \<not> isl (strconv_Atoi (anno_get (wl_annotations wl) AnnotationHPAOriginalMinReplicas)))"

lemma drain_typed_SetReplicas [simp]: "drain_typed (SetReplicas n wl) = drain_typed wl"
  by (simp add: drain_typed_def)

lemma parseDrainStart_upd [simp]:
  "k \<noteq> AnnotationDrainStart \<Longrightarrow> parseDrainStart (Some (m(k \<mapsto> v))) = parseDrainStart (Some m)"
  by (simp add: parseDrainStart_def parseRFC3339Annotation_def anno_lookup_def anno_get_def)

lemma parseDrainStart_make [simp]: "parseDrainStart (Some (anno_make a)) = parseDrainStart a"
  by (cases a) (simp_all add: parseDrainStart_def parseRFC3339Annotation_def anno_make_def anno_lookup_def anno_get_def)

lemma drain_typed_to_state:
  assumes "drain_typed wl" "drain_state wl \<noteq> ''''"
    "s \<in> {DrainStateScaledUp, DrainStateReady, DrainStateDraining, DrainStateDone}"
  shows "drain_typed (to_state AnnotationDrainState s wl)"
  using assms by (auto simp: drain_typed_def to_state_def)

lemma drain_typed_cleared:
  "cleared drainAnnotationKeys (wl_annotations wl) (wl_annotations wl') \<Longrightarrow> drain_typed wl'"
  by (simp add: drain_typed_def cleared_def anno_get_def)

lemma drain_typed_aborted [simp]: "drain_typed (drain_aborted wl)"
  by (rule drain_typed_cleared [of wl], rule drain.cleared_aborted)

text \<open>A state the controller has not written itself is aborted; the others keep their types.\<close>

lemma drain_typed_start:
  assumes "drain_typed wl" "rfc3339_range now"
  shows "drain_typed (scaled_start wl nodeName now)" "drain_typed (hpa_start wl nodeName now hpa)"
proof -
  have date: "parseDrainStart (Some (m(AnnotationDrainStart \<mapsto> time_Format_RFC3339 now))) = Some (now div nanos * nanos)" for m
    unfolding parseDrainStart_def by (rule parseRFC3339Annotation_Format) (simp_all add: assms(2))
  show "drain_typed (scaled_start wl nodeName now)" "drain_typed (hpa_start wl nodeName now hpa)"
    using assms(1) by (auto simp: drain_typed_def scaled_start_def hpa_start_def start_record_def date)
qed

abbreviation datable :: "api_call list \<Rightarrow> bool" where
  "datable l \<equiv> \<forall>t. ReadClock t \<in> set l \<longrightarrow> rfc3339_range t"

lemma handlePending_typed:
  assumes "drain_typed wl"
  shows "emits (handlePending K cfg wl nodeName) (\<lambda>r l. datable l \<longrightarrow> patches_ok drain_typed l)"
  unfolding handlePending_def
  by (intro case_vc emits_intros case_sumI)
    (use drain_typed_start [OF assms] in \<open>auto simp: api_result_Inl_iff scaled_start_def hpa_start_def start_record_def\<close>)

lemma handlers_typed:
  assumes "drain_typed wl" "drain_state wl \<noteq> ''''"
  shows "emits (drain_dispatch K cfg wl nodeName (drain_state wl)) (\<lambda>r l. patches_ok drain_typed l)"
proof -
  note to_state = drain_typed_to_state [OF assms]
  have up: "emits (handleWaitReady K cfg wl nodeName) (\<lambda>r l. patches_ok drain_typed l)"
    unfolding handleWaitReady_def waitReady_check_def
    by (intro case_vc emits_intros case_sumI)
      (auto simp: api_result_Inl_iff annotate_to_state [OF assms(2)] assms(1) to_state intro: abort_trace_patches)
  have ready: "emits (handleWaitEviction K cfg wl nodeName) (\<lambda>r l. patches_ok drain_typed l)"
    unfolding handleWaitEviction_def
    by (intro case_vc emits_intros case_sumI)
      (use drain_typed_to_state [of "SetReplicas _ wl"] assms in
        \<open>auto simp: api_result_Inl_iff annotate_to_state_original to_state intro: abort_trace_patches restore_trace_patches\<close>)
  have draining: "emits (handleScaleDown K cfg wl) (\<lambda>r l. patches_ok drain_typed l)"
    unfolding handleScaleDown_def
    by (intro case_vc emits_intros case_sumI)
      (use drain_typed_to_state [of "SetReplicas _ wl"] assms in
        \<open>auto simp: api_result_Inl_iff annotate_to_state_original to_state intro: abort_trace_patches\<close>)
  have finished: "emits (handleCleanup K wl) (\<lambda>r l. patches_ok drain_typed l)"
    unfolding handleCleanup_def
    by (intro case_vc emits_intros case_sumI)
      (auto simp: api_result_Inl_iff drain_typed_cleared [of wl] drain.cleared_clear)
  from assms show ?thesis
    by (auto simp: drain_dispatch_def drain_typed_def DrainStateNone_def up ready draining finished)
qed

text \<open>
  C15. The drain annotations stay readable: if those of a workload hold values of their types, so do
  those of every object a reconcile patches, provided the clock is in the range of RFC 3339. An operation
  the controller has started is therefore always dated and always has its original count on record,
  so that the timeout applies to it and an abort can restore it.
\<close>

theorem drain_annotations_stay_typed:
  assumes "drain_typed wl"
  shows "emits (reconcileWorkload K cfg wl nodeName) (\<lambda>r l.
     (\<forall>t. ReadClock t \<in> set l \<longrightarrow> rfc3339_range t) \<longrightarrow> patches_ok drain_typed l)"
proof (rule emits_reconcileWorkload)
  fix pre assume pre: "reconcile_prefix cfg nodeName wl pre"
  then have quiet: "patches_ok drain_typed pre" by (intro writes_Nil_patches reconcile_prefix_writes)
  show "emits (drain_dispatch K cfg wl nodeName (drain_state wl)) (\<lambda>r l. datable (pre @ l) \<longrightarrow> patches_ok drain_typed (pre @ l))"
  proof (cases "drain_state wl = ''''")
    case True
    then have "drain_dispatch K cfg wl nodeName (drain_state wl) = handlePending K cfg wl nodeName"
      by (simp add: drain_dispatch_def DrainStateNone_def)
    then show ?thesis using quiet by (auto intro: emits_mono [OF handlePending_typed [OF assms]])
  next
    case False
    then show ?thesis using quiet by (auto intro: emits_mono [OF handlers_typed [OF assms]])
  qed
qed (auto intro: abort_trace_patches writes_Nil_patches)

theorem drain_annotations_stay_typed_witness:
  "drain_typed (DeploymentWorkload demo_deployment) \<and>
   (\<exists>wl'. drain_typed wl' \<and> drain_state wl' = DrainStateScaledUp)"
proof -
  let ?m = "reconcileWorkload sim demo_config (DeploymentWorkload demo_deployment) ''n1''"
  have typed: "drain_typed (DeploymentWorkload demo_deployment)" by code_simp
  have clock: "list_all (\<lambda>c. case c of ReadClock t \<Rightarrow> t = t0 | _ \<Rightarrow> True) (trace_of ?m demo_cluster)" by code_simp
  have "patched_to AnnotationDrainState DrainStateScaledUp (trace_of ?m demo_cluster)" by code_simp
  moreover from clock have "\<forall>t. ReadClock t \<in> set (trace_of ?m demo_cluster) \<longrightarrow> rfc3339_range t"
    using demo_t0(1) by (auto simp: list_all_iff)
  then have "patches_ok drain_typed (trace_of ?m demo_cluster)"
    using emits_run [OF drain_annotations_stay_typed [OF typed], of sim demo_config "''n1''" demo_cluster] by blast
  ultimately obtain wl' where "drain_typed wl'" "drain_state wl' = DrainStateScaledUp" using patched_toD by blast
  with typed show ?thesis by blast
qed

section \<open>Requeue times\<close>

definition requeues :: "Config \<Rightarrow> error + Result \<Rightarrow> bool" where
  "requeues cfg r \<longleftrightarrow> (case r of Inl _ \<Rightarrow> True
     | Inr res \<Rightarrow> RequeueAfter res \<in> {0, 250 * time_Millisecond, RequeueInterval cfg})"

lemma requeues_simps [simp]:
  "requeues cfg (Inl e)" "requeues cfg (Inr ctrl_Result)"
  "requeues cfg (Inr (requeue_after (RequeueInterval cfg)))"
  "requeues cfg (Inr (requeue_after (250 * time_Millisecond)))"
  by (simp_all add: requeues_def ctrl_Result_def requeue_after_def)

lemma abort_trace_requeues: "abort_trace f wl r l \<Longrightarrow> requeues cfg r"
  by (erule abort_trace.cases) simp_all

lemmas handler_defs = handlePending_def handleScaleUp_def handleWaitReady_def waitReady_check_def
  handleWaitEviction_def handleScaleDown_def handleCleanup_def

lemma requeues_handlers:
  "emits (handlePending K cfg wl nodeName) (\<lambda>r l. requeues cfg r)"
  "emits (handleScaleUp K cfg wl nodeName) (\<lambda>r l. requeues cfg r)"
  "emits (handleWaitReady K cfg wl nodeName) (\<lambda>r l. requeues cfg r)"
  "emits (handleWaitEviction K cfg wl nodeName) (\<lambda>r l. requeues cfg r)"
  "emits (handleScaleDown K cfg wl) (\<lambda>r l. requeues cfg r)"
  "emits (handleCleanup K wl) (\<lambda>r l. requeues cfg r)"
  "emits (abortWorkload K wl) (\<lambda>r l. requeues cfg r)"
  unfolding handler_defs
  by (intro case_vc emits_intros case_sumI; auto intro: abort_trace_requeues)+

lemma requeues_reconcileWorkload: "emits (reconcileWorkload K cfg wl nodeName) (\<lambda>r l. requeues cfg r)"
  by (rule emits_reconcileWorkload)
    (auto simp: drain_dispatch_def requeues_handlers intro: abort_trace_requeues)

lemma merge_requeue_in: "merge_requeue d res \<in> {d, RequeueAfter res}"
  by (simp add: merge_requeue_def)

lemma requeues_all:
  "d \<in> {0, 250 * time_Millisecond, RequeueInterval cfg} \<Longrightarrow>
   emits (reconcile_all K cfg nodeName ws d) (\<lambda>r l. case r of Inl _ \<Rightarrow> True
     | Inr d' \<Rightarrow> d' \<in> {0, 250 * time_Millisecond, RequeueInterval cfg})"
proof (induction ws arbitrary: d)
  case (Cons kw ws)
  obtain k wl where kw: "kw = (k, wl)" by (cases kw)
  have "merge_requeue d res \<in> {0, 250 * time_Millisecond, RequeueInterval cfg}" if "requeues cfg (Inr res)" for res
    using Cons.prems that merge_requeue_in [of d res] unfolding requeues_def by auto
  then show ?case
    unfolding kw reconcile_all.simps
    by (intro emits_bind emits_mono [OF requeues_reconcileWorkload] emits_case_sum emits_if emits_return Cons.IH Cons.prems)
      auto
qed (auto intro!: emits_return)

text \<open>
  C33. With a valid configuration a reconcile of a node that returns no error asks to be called again
  never, after a quarter of a second, or after the configured interval, whatever the cluster answers;
  the time is not negative.
\<close>

theorem requeue_in_range:
  assumes "Validate cfg = None"
  shows "emits (Reconcile K cfg n) (\<lambda>r l. case r of Inl _ \<Rightarrow> True
     | Inr res \<Rightarrow> RequeueAfter res \<in> {0, 250 * time_Millisecond, RequeueInterval cfg} \<and> 0 \<le> sint (RequeueAfter res))"
proof -
  have range: "(case r of Inl _ \<Rightarrow> True
      | Inr res \<Rightarrow> RequeueAfter res \<in> {0, 250 * time_Millisecond, RequeueInterval cfg} \<and> 0 \<le> sint (RequeueAfter res))"
    if "requeues cfg r" for r
    using that assms by (auto simp: requeues_def Validate_None_iff time_Millisecond_def split: sum.splits)
  have "emits (Reconcile K cfg n) (\<lambda>r l. requeues cfg r)"
    unfolding Reconcile_def abortWorkloadsForNode_def reconcileTaintedNode_def Let_def
    by (intro emits_bind emits_call emits_case_sum emits_if emits_checked emits_client_call emits_return emits_case_option
        emits_mono [OF emits_findWorkloadsWithDrainNode] emits_mono [OF emits_abort_all]
        emits_mono [OF emits_resolve_pods] emits_mono [OF requeues_all] case_sumI)
      (auto simp: requeues_def requeue_after_def ctrl_Result_def)
  then show ?thesis by (rule emits_mono) (rule range)
qed

lemma demo_node_result: "case run_result (Reconcile sim demo_config ''n1'') demo_cluster of
    Inl _ \<Rightarrow> False | Inr res \<Rightarrow> RequeueAfter res \<noteq> 0"
  by code_simp

theorem requeue_in_range_witness:
  "Validate demo_config = None \<and> (\<exists>res. run_result (Reconcile sim demo_config ''n1'') demo_cluster = Inr res \<and>
     RequeueAfter res \<in> {250 * time_Millisecond, RequeueInterval demo_config})"
  using emits_run [OF requeue_in_range [OF demo_config_valid(1)], of sim "''n1''" demo_cluster] demo_node_result
    demo_config_valid(1)
  by (auto split: sum.splits)

section \<open>A raise that failed\<close>

lemma abort_trace_hpa:
  assumes "abort_trace f wl r l" "PatchHPA ns n k a \<in> set l"
  shows "\<exists>m. strconv_Atoi (anno_get (wl_annotations wl) AnnotationHPAOriginalMinReplicas) = Inr m \<and> k = word_of_int m"
  using assms by (auto elim!: abort_trace.cases restore_trace.cases)

text \<open>
  C39. A raise of the autoscaler that failed is not tried again: once the workload is in state
  \<open>scaled-up\<close>, the only minimum a reconcile ever sends to an autoscaler is the recorded original one, as
  part of an abort. If the patch that follows the record of a start is lost, the surge waits for a
  replica nobody has asked for until it times out.
\<close>

theorem raise_is_not_retried:
  assumes "drain_state wl = DrainStateScaledUp"
  shows "emits (reconcileWorkload K cfg wl nodeName) (\<lambda>r l. \<forall>ns n k a. PatchHPA ns n k a \<in> set l \<longrightarrow>
     (\<exists>m. strconv_Atoi (anno_get (wl_annotations wl) AnnotationHPAOriginalMinReplicas) = Inr m \<and> k = word_of_int m) \<and>
     Object (drain_aborted wl) \<in> set (patched_objects l))"
proof (rule emits_reconcileWorkload)
  fix pre assume pre: "reconcile_prefix cfg nodeName wl pre"
  have "emits (handleWaitReady K cfg wl nodeName) (\<lambda>r l. \<forall>ns n k a. PatchHPA ns n k a \<notin> set l)"
    unfolding handleWaitReady_def waitReady_check_def
    by (intro case_vc emits_intros case_sumI) (auto elim!: abort_trace.cases restore_trace.cases)
  then show "emits (drain_dispatch K cfg wl nodeName (drain_state wl)) (\<lambda>r l. \<forall>ns n k a. PatchHPA ns n k a \<in> set (pre @ l) \<longrightarrow>
     (\<exists>m. strconv_Atoi (anno_get (wl_annotations wl) AnnotationHPAOriginalMinReplicas) = Inr m \<and> k = word_of_int m) \<and>
     Object (drain_aborted wl) \<in> set (patched_objects (pre @ l)))"
    using pre assms by (auto simp: drain_dispatch_def elim!: emits_mono reconcile_prefixE)
next
  fix now ev r l assume "abort_trace drain_aborted wl r l"
  with abort_trace_hpa [OF this] show "\<forall>ns n k a. PatchHPA ns n k a \<in> set (ReadClock now # RecordEvent (Object wl) ev # l) \<longrightarrow>
     (\<exists>m. strconv_Atoi (anno_get (wl_annotations wl) AnnotationHPAOriginalMinReplicas) = Inr m \<and> k = word_of_int m) \<and>
     Object (drain_aborted wl) \<in> set (patched_objects (ReadClock now # RecordEvent (Object wl) ev # l))"
    using abort_trace_shape by fastforce
next
  fix l :: "api_call list" assume "writes l = []"
  then show "\<forall>ns n k a. PatchHPA ns n k a \<in> set l \<longrightarrow>
     (\<exists>m. strconv_Atoi (anno_get (wl_annotations wl) AnnotationHPAOriginalMinReplicas) = Inr m \<and> k = word_of_int m) \<and>
     Object (drain_aborted wl) \<in> set (patched_objects l)"
    by (auto simp: writes_def filter_empty_conv)
qed

definition demo_unraised :: DrainableWorkload where
  "demo_unraised = hpa_start (DeploymentWorkload demo_deployment) ''n1'' t0 demo_hpa"

lemma demo_unraised_state: "drain_state demo_unraised = DrainStateScaledUp"
  by code_simp

lemma demo_unraised_run:
  "patched_objects (trace_of (reconcileWorkload sim demo_config demo_unraised ''n1'') demo_cluster) = []"
  by code_simp

theorem raise_is_not_retried_witness:
  "drain_state demo_unraised = DrainStateScaledUp \<and>
   (\<forall>ns n k a. PatchHPA ns n k a \<notin> set (trace_of (reconcileWorkload sim demo_config demo_unraised ''n1'') demo_cluster))"
  using emits_run [OF raise_is_not_retried [OF demo_unraised_state], of sim demo_config "''n1''" demo_cluster]
    demo_unraised_state demo_unraised_run by auto

end
