(* ===== verification/RestartLifecycle.thy ===== *)
theory RestartLifecycle
  imports RestartProperties Lifecycle
begin

text \<open>
  Progress of a restart surge, parallel to \<open>Lifecycle\<close>: what a reconcile of a Rollout writes when the
  cluster answers favourably. Here a favourable answer shows, at the start, an overdue restart with a
  pod older than it, then two ready pods, then no pod older than the restart.
\<close>

section \<open>Favourable answers\<close>

definition overdue :: "Config \<Rightarrow> Rollout \<Rightarrow> Time \<Rightarrow> bool" where
  "overdue cfg ro t \<longleftrightarrow> (case ro_RestartAt ro of None \<Rightarrow> False | Some r \<Rightarrow>
     \<not> time_Before t r \<and> \<not> time_Sub t r <s RestartSurgeGracePeriod cfg)"

definition good_restart_answer :: "'s platform \<Rightarrow> Config \<Rightarrow> Rollout \<Rightarrow> api_call \<Rightarrow> bool" where
  "good_restart_answer K cfg ro c \<longleftrightarrow>
     (case c of
        ReadClock t \<Rightarrow> \<not> restart_expired cfg t (RolloutWorkload ro) \<and>
          (restart_state (RolloutWorkload ro) = '''' \<longrightarrow> overdue cfg ro t)
      | ListMatchingPods _ _ ans \<Rightarrow> (case ans of Inl _ \<Rightarrow> False | Inr pods \<Rightarrow>
          (restart_state (RolloutWorkload ro) = '''' \<longrightarrow> \<not> restartCompletedByArgo ro pods) \<and>
          (restart_state (RolloutWorkload ro) = DrainStateScaledUp \<longrightarrow> 2 \<le> count_ready pods) \<and>
          (restart_state (RolloutWorkload ro) = DrainStateReady \<longrightarrow> restartCompletedByArgo ro pods))
      | ListPDBs _ ans \<Rightarrow> (case ans of Inl _ \<Rightarrow> False | Inr pdbs \<Rightarrow>
          find_pdb K (fst (pf_Requirements K (ro_GetPodSelector K ro))) pdbs)
      | ListHPAs _ ans \<Rightarrow> (case ans of Inl _ \<Rightarrow> False | Inr hpas \<Rightarrow>
          (case find_hpa (Name (ro_ObjectMeta ro)) (ro_GetObjectKind ro) hpas of None \<Rightarrow> True | Some hpa \<Rightarrow> hpa_fits hpa))
      | PatchObject _ _ ans \<Rightarrow> \<not> isl ans
      | PatchHPA _ _ _ ans \<Rightarrow> \<not> isl ans
      | _ \<Rightarrow> True)"

abbreviation restart_favourable :: "'s platform \<Rightarrow> Config \<Rightarrow> Rollout \<Rightarrow> api_call list \<Rightarrow> bool" where
  "restart_favourable K cfg ro \<equiv> list_all (good_restart_answer K cfg ro)"

lemmas good_restart_simps = good_restart_answer_def api_result_Inl_iff Inl_api_result_iff annotate_to_state_original

section \<open>Reconciles of an operation under way\<close>

lemma restart_progress_active:
  assumes "drain_state (RolloutWorkload ro) = ''''"
    and "emits (restart_dispatch K cfg now ro (restart_state (RolloutWorkload ro))) (\<lambda>r l. restart_favourable K cfg ro l \<longrightarrow>
      writes_exactly wl' minima l \<and> \<not> isl r)"
  shows "emits (restart_reconcileWorkload K cfg now ro) (\<lambda>r l. restart_favourable K cfg ro l \<longrightarrow>
      writes_exactly wl' minima l \<and> \<not> isl r)"
proof (rule emits_restart_reconcileWorkload, goal_cases)
  case (4 pre)
  from 4(1) show ?case by cases (rule emits_mono [OF assms(2)], simp)+
qed (use assms(1) in \<open>auto simp: good_restart_answer_def\<close>)

lemma restart_progress_scaled_up:
  assumes "drain_state (RolloutWorkload ro) = ''''" "restart_state (RolloutWorkload ro) = DrainStateScaledUp"
    "getOriginalReplicas (wl_annotations (RolloutWorkload ro)) = Inr k"
    "anno_get (wl_annotations (RolloutWorkload ro)) AnnotationHPAName \<noteq> '''' \<or> sint k < sint (GetReplicas (RolloutWorkload ro))"
  shows "emits (restart_reconcileWorkload K cfg now ro) (\<lambda>r l. restart_favourable K cfg ro l \<longrightarrow>
      writes_exactly (to_state AnnotationRestartSurgeState DrainStateReady (RolloutWorkload ro)) [] l \<and> \<not> isl r)"
proof (rule restart_progress_active [OF assms(1)])
  show "emits (restart_dispatch K cfg now ro (restart_state (RolloutWorkload ro))) (\<lambda>r l. restart_favourable K cfg ro l \<longrightarrow>
      writes_exactly (to_state AnnotationRestartSurgeState DrainStateReady (RolloutWorkload ro)) [] l \<and> \<not> isl r)"
    using assms(4) unfolding restart_dispatch_def handleRestartWaitReady_def restartWaitReady_check_def Let_def
    by (simp only: assms(2) DrainStateNone_def key_simps if_True if_False)
     (intro case_vc emits_intros case_sumI, auto simp: good_restart_simps assms simp del: GetObjectMeta.simps GetReplicas.simps Object.simps)
qed

lemma restart_progress_ready:
  assumes "drain_state (RolloutWorkload ro) = ''''" "restart_state (RolloutWorkload ro) = DrainStateReady"
    "getOriginalReplicas (wl_annotations (RolloutWorkload ro)) = Inr k"
    "anno_get (wl_annotations (RolloutWorkload ro)) AnnotationHPAName = h"
    "h \<noteq> '''' \<Longrightarrow> strconv_Atoi (anno_get (wl_annotations (RolloutWorkload ro)) AnnotationHPAOriginalMinReplicas) = Inr m"
  shows "emits (restart_reconcileWorkload K cfg now ro) (\<lambda>r l. restart_favourable K cfg ro l \<longrightarrow>
      writes_exactly (to_state AnnotationRestartSurgeState DrainStateDraining
          (if h = '''' then SetReplicas k (RolloutWorkload ro) else RolloutWorkload ro))
        (if h = '''' then [] else [(h, word_of_int m)]) l \<and> \<not> isl r)"
proof (rule restart_progress_active [OF assms(1)])
  show "emits (restart_dispatch K cfg now ro (restart_state (RolloutWorkload ro))) (\<lambda>r l. restart_favourable K cfg ro l \<longrightarrow>
      writes_exactly (to_state AnnotationRestartSurgeState DrainStateDraining
          (if h = '''' then SetReplicas k (RolloutWorkload ro) else RolloutWorkload ro))
        (if h = '''' then [] else [(h, word_of_int m)]) l \<and> \<not> isl r)"
    using assms(4,5)
    unfolding restart_dispatch_def handleRestartWaitForArgo_def restart_finish_def restart_restoreHPA_eq Let_def
    by (simp only: assms(2) DrainStateNone_def key_simps if_True if_False)
     (intro case_vc emits_intros case_sumI, auto simp: good_restart_simps assms(2,3) elim!: restore_trace.cases
       simp del: GetObjectMeta.simps GetReplicas.simps SetReplicas.simps Object.simps)
qed

lemma restart_progress_draining:
  assumes "drain_state (RolloutWorkload ro) = ''''" "restart_state (RolloutWorkload ro) = DrainStateDraining"
    "getOriginalReplicas (wl_annotations (RolloutWorkload ro)) = Inr (GetReplicas (RolloutWorkload ro))"
  shows "emits (restart_reconcileWorkload K cfg now ro) (\<lambda>r l. restart_favourable K cfg ro l \<longrightarrow>
      writes_exactly (to_state AnnotationRestartSurgeState DrainStateDone (RolloutWorkload ro)) [] l \<and> \<not> isl r)"
proof (rule restart_progress_active [OF assms(1)])
  show "emits (restart_dispatch K cfg now ro (restart_state (RolloutWorkload ro))) (\<lambda>r l. restart_favourable K cfg ro l \<longrightarrow>
      writes_exactly (to_state AnnotationRestartSurgeState DrainStateDone (RolloutWorkload ro)) [] l \<and> \<not> isl r)"
    unfolding restart_dispatch_def handleRestartScaleDown_def Let_def
    by (simp only: assms(2) DrainStateNone_def key_simps if_True if_False)
     (intro case_vc emits_intros case_sumI, auto simp: good_restart_simps assms simp del: GetObjectMeta.simps GetReplicas.simps Object.simps)
qed

lemma restart_progress_done:
  assumes "drain_state (RolloutWorkload ro) = ''''" "restart_state (RolloutWorkload ro) = DrainStateDone"
  shows "emits (restart_reconcileWorkload K cfg now ro) (\<lambda>r l. restart_favourable K cfg ro l \<longrightarrow>
      writes_exactly (SetAnnotations (clearRestartSurgeAnnotations (wl_annotations (RolloutWorkload ro))) (RolloutWorkload ro)) [] l \<and>
      \<not> isl r)"
proof (rule restart_progress_active [OF assms(1)])
  show "emits (restart_dispatch K cfg now ro (restart_state (RolloutWorkload ro))) (\<lambda>r l. restart_favourable K cfg ro l \<longrightarrow>
      writes_exactly (SetAnnotations (clearRestartSurgeAnnotations (wl_annotations (RolloutWorkload ro))) (RolloutWorkload ro)) [] l \<and>
      \<not> isl r)"
    unfolding restart_dispatch_def handleRestartCleanup_def Let_def
    by (simp only: assms(2) DrainStateNone_def key_simps if_True if_False)
     (intro case_vc emits_intros case_sumI, auto simp: good_restart_simps assms simp del: GetObjectMeta.simps SetAnnotations.simps Object.simps)
qed

section \<open>The start\<close>

definition restart_record :: "DrainableWorkload \<Rightarrow> Time \<Rightarrow> annotations" where
  "restart_record wl t = (anno_make (wl_annotations wl))
     (AnnotationRestartSurgeState \<mapsto> DrainStateScaledUp,
      AnnotationOriginalReplicas \<mapsto> strconv_Itoa (sint (GetReplicas wl)),
      AnnotationRestartSurgeStart \<mapsto> time_Format_RFC3339 t)"

text \<open>A restart is stuck, for the pods listed and the time read, if it is overdue and not completed.\<close>

lemma stuck_overdue:
  "isRestartStuck ro pods (RestartSurgeGracePeriod cfg) t \<longleftrightarrow> \<not> restartCompletedByArgo ro pods \<and> overdue cfg ro t"
  by (auto simp: isRestartStuck_def restartCompletedByArgo_def overdue_def split: option.splits)

lemma restart_surge_favourable:
  assumes "GetReplicas (RolloutWorkload ro) = 1" "ro_RestartAt ro \<noteq> None"
  shows "emits (restart_surge K cfg now ro) (\<lambda>r l. restart_favourable K cfg ro l \<longrightarrow>
     (\<exists>wl'. patched_objects l = [Object wl'] \<and>
        starts (restart_record (RolloutWorkload ro)) (RolloutWorkload ro) l wl' (hpa_minima l)) \<and> \<not> isl r)"
  unfolding restart_surge_def
  by (intro case_vc emits_intros case_sumI)
    (use assms in \<open>auto simp: good_restart_simps restart_record_def hpa_fits_def intro!: hpa_readI intro: starts.intros
      simp del: GetReplicas.simps SetReplicas.simps SetAnnotations.simps Object.simps\<close>)

lemma restart_progress_new:
  assumes "restart_state (RolloutWorkload ro) = ''''" "restart_eligible cfg ro" "ro_RestartAt ro \<noteq> None"
  shows "emits (restart_reconcileWorkload K cfg now ro) (\<lambda>r l. restart_favourable K cfg ro l \<longrightarrow>
     (\<exists>wl'. patched_objects l = [Object wl'] \<and>
        starts (restart_record (RolloutWorkload ro)) (RolloutWorkload ro) l wl' (hpa_minima l)) \<and> \<not> isl r)"
proof -
  have "GetReplicas (RolloutWorkload ro) = 1" using assms(2) by (simp add: restart_eligible_def)
  note start = restart_surge_favourable [OF this assms(3)]
  have "restart_reconcileWorkload K cfg now ro = handleRestartPending K cfg now ro"
    using assms(1,2) by (simp add: restart_reconcileWorkload_def restart_dispatch_def restart_eligible_def DrainStateNone_def)
  then show ?thesis
    using assms(1,2) unfolding handleRestartPending_def Let_def
    by (simp only:) (intro case_vc emits_intros case_sumI emits_mono [OF start],
      auto simp: good_restart_simps restart_eligible_def stuck_overdue ro_CanSurge_def intro!: starts_Cons)
qed

section \<open>The stages of a restart surge\<close>

text \<open>The Rollout behind a workload: the restart controller handles nothing else.\<close>

fun rollout_in :: "DrainableWorkload \<Rightarrow> Rollout" where
  "rollout_in (RolloutWorkload ro) = ro"

abbreviation restart_rec :: "'s platform \<Rightarrow> Config \<Rightarrow> ('s, Time) state option \<Rightarrow> 's reconciler" where
  "restart_rec K cfg now \<equiv> \<lambda>wl. restart_reconcileWorkload K cfg now (rollout_in wl)"

abbreviation restart_good :: "'s platform \<Rightarrow> Config \<Rightarrow> DrainableWorkload \<Rightarrow> api_call \<Rightarrow> bool" where
  "restart_good K cfg \<equiv> \<lambda>wl. good_restart_answer K cfg (rollout_in wl)"

definition undrained_rollout :: "DrainableWorkload \<Rightarrow> bool" where
  "undrained_rollout wl \<longleftrightarrow> (\<exists>ro. wl = RolloutWorkload ro) \<and> drain_state wl = ''''"

definition restart_fresh :: "Config \<Rightarrow> Rollout \<Rightarrow> bool" where
  "restart_fresh cfg ro \<longleftrightarrow> restart_state (RolloutWorkload ro) = '''' \<and> restart_eligible cfg ro \<and> ro_RestartAt ro \<noteq> None \<and>
     anno_get (Annotations (ro_ObjectMeta ro)) AnnotationHPAName = ''''"

abbreviation restart_stage :: "Config \<Rightarrow> DrainableWorkload \<Rightarrow> nat \<Rightarrow> DrainableWorkload \<Rightarrow> api_call list \<Rightarrow> bool" where
  "restart_stage cfg \<equiv> surge_stage AnnotationRestartSurgeState restartSurgeFullKeys
     (\<lambda>wl. \<exists>ro. wl = RolloutWorkload ro \<and> restart_fresh cfg ro) undrained_rollout"

lemma undrained_SetReplicas [simp]:
  "undrained_rollout (RolloutWorkload (ro_SetReplicas n ro)) \<longleftrightarrow> undrained_rollout (RolloutWorkload ro)"
  by (auto simp: undrained_rollout_def ro_SetReplicas_def)

lemma undrained_to_state [simp]: "undrained_rollout wl \<Longrightarrow> undrained_rollout (to_state AnnotationRestartSurgeState s wl)"
  by (auto simp: undrained_rollout_def to_state_def ro_SetAnnotations_def)

lemma start_undrained:
  "starts (restart_record (RolloutWorkload ro)) (RolloutWorkload ro) l wl' minima \<Longrightarrow> restart_eligible cfg ro \<Longrightarrow>
     undrained_rollout wl'"
  by (auto elim!: starts.cases simp: restart_record_def restart_eligible_def undrained_rollout_def ro_SetReplicas_def
      ro_SetAnnotations_def)

lemma restart_stage_start:
  assumes "starts (restart_record (RolloutWorkload ro)) (RolloutWorkload ro) l wl' (hpa_minima l)"
    "patched_objects l = [Object wl']" "restart_fresh cfg ro" "hpa_minima l0 = []"
  shows "restart_stage cfg (RolloutWorkload ro) 1 (patched_last (RolloutWorkload ro) l) (l0 @ l)"
proof (rule restart.stage_started [OF assms(1,2)])
  show "undrained_rollout wl'" using start_undrained [OF assms(1), of cfg] assms(3) by (simp add: restart_fresh_def)
qed (use assms(3,4) in \<open>auto simp: restart_fresh_def restart_eligible_def restart_record_def keeps_def anno_lookup_make key_list_defs\<close>)

lemma restart_advance_rollout:
  assumes stage: "restart_stage cfg wl0 i (RolloutWorkload ro) l0" and "i < 5"
  shows "emits (restart_reconcileWorkload K cfg now ro) (\<lambda>r l. restart_favourable K cfg ro l \<longrightarrow>
     restart_stage cfg wl0 (Suc i) (patched_last (RolloutWorkload ro) l) (l0 @ l))"
proof -
  have u: "undrained_rollout (RolloutWorkload ro)" "drain_state (RolloutWorkload ro) = ''''" if "i \<noteq> 0"
    using assms that by (auto simp: surge_stage_def undrained_rollout_def split: if_splits)
  consider "i = 0" | "i = 1" | "i = 2" | "i = 3" | "i = 4" using assms(2) by fastforce
  then show ?thesis
  proof cases
    case 1
    with stage have f: "wl0 = RolloutWorkload ro" "hpa_minima l0 = []" "restart_fresh cfg ro" by (auto simp: surge_stage_def)
    then have "restart_state (RolloutWorkload ro) = ''''" "restart_eligible cfg ro" "ro_RestartAt ro \<noteq> None"
      by (simp_all add: restart_fresh_def)
    from restart_progress_new [OF this] show ?thesis
      by (rule emits_mono) (use 1 f in \<open>auto intro: restart_stage_start [unfolded One_nat_def]\<close>)
  next
    case 2
    with stage have f: "restart_state (RolloutWorkload ro) = DrainStateScaledUp"
      "getOriginalReplicas (wl_annotations (RolloutWorkload ro)) = Inr 1"
      "anno_get (wl_annotations (RolloutWorkload ro)) AnnotationHPAName \<noteq> '''' \<or> sint (1 :: int32) < sint (GetReplicas (RolloutWorkload ro))"
      by (auto simp: surge_stage_def at_stage_def)
    show ?thesis
      by (rule emits_mono [OF restart_progress_scaled_up [OF u(2) f]], use 2 in simp,
          intro impI, rule restart.stage_up [OF stage 2 _ refl]) (use 2 u in auto)
  next
    case 3
    let ?h = "anno_get (wl_annotations (RolloutWorkload ro)) AnnotationHPAName"
    from 3 stage obtain m where f: "restart_state (RolloutWorkload ro) = DrainStateReady"
      "getOriginalReplicas (wl_annotations (RolloutWorkload ro)) = Inr 1"
      "?h \<noteq> '''' \<Longrightarrow> strconv_Atoi (anno_get (wl_annotations (RolloutWorkload ro)) AnnotationHPAOriginalMinReplicas) = Inr m"
      by (auto simp: surge_stage_def at_stage_def)
    show ?thesis
      by (rule emits_mono [OF restart_progress_ready [OF u(2) f(1,2) refl f(3)]], use 3 in simp, assumption,
          intro impI, rule restart.stage_down [OF stage 3 refl _ _ refl, where m = m]) (use 3 u f(3) in auto)
  next
    case 4
    with stage have f: "restart_state (RolloutWorkload ro) = DrainStateDraining"
      "getOriginalReplicas (wl_annotations (RolloutWorkload ro)) = Inr (GetReplicas (RolloutWorkload ro))"
      by (auto simp: surge_stage_def at_stage_def)
    show ?thesis
      by (rule emits_mono [OF restart_progress_draining [OF u(2) f]], use 4 in simp,
          intro impI, rule restart.stage_finish [OF stage 4 _ refl]) (use 4 u in auto)
  next
    case 5
    with stage have f: "restart_state (RolloutWorkload ro) = DrainStateDone" by (auto simp: surge_stage_def at_stage_def)
    show ?thesis
      by (rule emits_mono [OF restart_progress_done [OF u(2) f]], use 5 in simp,
          intro impI, rule restart.stage_clear [OF stage 5 _ refl]) (use u in auto)
  qed
qed

lemma restart_advance:
  assumes "restart_stage cfg wl0 i wl l0" "i < 5"
  shows "emits (restart_rec K cfg now wl) (\<lambda>r l. list_all (restart_good K cfg wl) l \<longrightarrow>
     restart_stage cfg wl0 (Suc i) (patched_last wl l) (l0 @ l))"
proof -
  obtain ro where "wl = RolloutWorkload ro"
    using assms by (auto simp: surge_stage_def undrained_rollout_def split: if_splits)
  with restart_advance_rollout [OF _ assms(2)] assms(1) show ?thesis by simp
qed

interpretation restart_progress: staged_run "restart_good K cfg" "restart_rec K cfg now" "restart_stage cfg wl0" 5
  for K :: "'s platform" and cfg now wl0
  by unfold_locales (rule restart_advance, assumption+, rule surge_stage_idle)

section \<open>Completion\<close>

text \<open>
  C12. A restart surge ends, likewise: on an eligible Rollout with a requested restart, no operation and
  no autoscaler on record, by the fifth favourable reconcile, however many in between found nothing to
  write, the states scaled-up, ready, draining, done and none have been written, in this order and no
  others. The last object has one replica again, none of the owned annotations and every other as
  before, and the autoscaler is back at the minimum it was read with, if it was raised.
\<close>

theorem restart_completes:
  assumes "restart_fresh cfg ro" "steady_run (restart_good K cfg) (restart_rec K cfg now) (RolloutWorkload ro) ws"
    "good_rounds (restart_good K cfg) (restart_rec K cfg now) (RolloutWorkload ro) ws = 5"
  shows "remdups_adj (map restart_state (RolloutWorkload ro # run_stages (restart_rec K cfg now) (RolloutWorkload ro) ws)) =
       ['''', DrainStateScaledUp, DrainStateReady, DrainStateDraining, DrainStateDone, ''''] \<and>
     GetReplicas (last (RolloutWorkload ro # run_stages (restart_rec K cfg now) (RolloutWorkload ro) ws)) = 1 \<and>
     cleared restartSurgeFullKeys (Annotations (ro_ObjectMeta ro))
       (wl_annotations (last (RolloutWorkload ro # run_stages (restart_rec K cfg now) (RolloutWorkload ro) ws))) \<and>
     settled (RolloutWorkload ro) (run_calls (restart_rec K cfg now) (RolloutWorkload ro) ws)"
proof -
  have idle: "restart_state wl = ''''" if "\<exists>ro. wl = RolloutWorkload ro \<and> restart_fresh cfg ro" for wl
    using that by (auto simp: restart_fresh_def)
  from surge_run_completes [OF restart_progress.staged_run_axioms _ assms(2,3) _ idle] assms(1) show ?thesis
    by (simp add: key_list_defs)
qed

lemma restart_expired_code [code]:
  "restart_expired cfg now wl \<longleftrightarrow> restart_state wl \<noteq> '''' \<and> restart_state wl \<noteq> DrainStateDone \<and>
     (case parseRestartSurgeStart (wl_annotations wl) of
        None \<Rightarrow> False
      | Some start \<Rightarrow> 3 * RestartSurgeTimeout cfg <s time_Sub now start \<or> RestartSurgeTimeout cfg <s time_Sub now start)"
  by (simp add: restart_expired_def split: option.splits)

text \<open>A restart: the surge pod appears, Argo replaces the old pod, the surge goes.\<close>

definition new_pod :: Pod where
  "new_pod = (demo_pod ''web-2'' ''n2'')\<lparr>pod_ObjectMeta := (demo_meta ''web-2'' None [])\<lparr>CreationTimestamp := t0\<rparr>\<rparr>"

definition demo_restart :: "(cluster, api_call) world list" where
  "demo_restart = map (\<lambda>(t, pods). start_world (demo_cluster\<lparr>c_now := t0 + t * nanos, c_pods := pods,
        c_rollouts := [demo_rollout], c_deployments := []\<rparr>))
     [(0, [demo_pod ''web-1'' ''n1'']), (60, [demo_pod ''web-1'' ''n1'', new_pod]), (90, [new_pod]), (95, [new_pod]),
      (100, [new_pod])]"

definition restart_started :: DrainableWorkload where
  "restart_started = SetReplicas 2 (SetAnnotations (Some (restart_record (RolloutWorkload demo_rollout) t0)) (RolloutWorkload demo_rollout))"

definition restart_ready :: DrainableWorkload where
  "restart_ready = to_state AnnotationRestartSurgeState DrainStateReady restart_started"

definition restart_draining :: DrainableWorkload where
  "restart_draining = to_state AnnotationRestartSurgeState DrainStateDraining (SetReplicas 1 restart_ready)"

definition restart_done :: DrainableWorkload where
  "restart_done = to_state AnnotationRestartSurgeState DrainStateDone restart_draining"

abbreviation restart_calls :: "DrainableWorkload \<Rightarrow> nat \<Rightarrow> api_call list" where
  "restart_calls wl i \<equiv> calls_of (restart_rec sim demo_config None wl) (demo_restart ! i)"

lemma demo_restart_fresh: "restart_fresh demo_config demo_rollout"
  by code_simp

lemma restart_fav1: "list_all (restart_good sim demo_config (RolloutWorkload demo_rollout)) (restart_calls (RolloutWorkload demo_rollout) 0)"
  by code_simp

lemma restart_fav2: "list_all (restart_good sim demo_config restart_started) (restart_calls restart_started 1)"
  by code_simp

lemma restart_fav3: "list_all (restart_good sim demo_config restart_ready) (restart_calls restart_ready 2)"
  by code_simp

lemma restart_fav4: "list_all (restart_good sim demo_config restart_draining) (restart_calls restart_draining 3)"
  by code_simp

lemma restart_fav5: "list_all (restart_good sim demo_config restart_done) (restart_calls restart_done 4)"
  by code_simp

lemma restart_first_calls: "list_all (\<lambda>c. case c of ReadClock t \<Rightarrow> t = t0 | ListHPAs _ ans \<Rightarrow> (case ans of Inr [] \<Rightarrow> True | _ \<Rightarrow> False)
    | _ \<Rightarrow> True) (restart_calls (RolloutWorkload demo_rollout) 0)"
  by code_simp

lemma restart_first: "patched_last (RolloutWorkload demo_rollout) (restart_calls (RolloutWorkload demo_rollout) 0) = restart_started"
proof -
  let ?l = "restart_calls (RolloutWorkload demo_rollout) 0"
  have "restart_eligible demo_config demo_rollout" "ro_RestartAt demo_rollout \<noteq> None" "GetReplicas (RolloutWorkload demo_rollout) = 1"
    using demo_restart_fresh by (simp_all add: restart_fresh_def restart_eligible_def)
  with emits_calls [OF restart_progress_new [OF demo_rollout_fresh this(1,2)], where w = "demo_restart ! 0"] restart_fav1 obtain wl' where
    wl': "patched_objects ?l = [Object wl']"
      "starts (restart_record (RolloutWorkload demo_rollout)) (RolloutWorkload demo_rollout) ?l wl' (hpa_minima ?l)"
    and one: "GetReplicas (RolloutWorkload demo_rollout) = 1" by auto
  from wl'(2) have "wl' = restart_started"
  proof cases
    case (scaled t)
    with restart_first_calls have "t = t0" by (auto simp: list_all_iff)
    with scaled one show ?thesis by (simp add: restart_started_def)
  next
    case (autoscaled t hpa)
    with restart_first_calls show ?thesis
      by (fastforce simp: list_all_iff hpa_read_def split: list.splits)
  qed
  with patched_last_one [OF wl'(1)] show ?thesis by simp
qed

lemma restart_rollouts:
  "RolloutWorkload (rollout_in restart_started) = restart_started" "RolloutWorkload (rollout_in restart_ready) = restart_ready"
  "RolloutWorkload (rollout_in restart_draining) = restart_draining"
  by (simp_all add: restart_done_def restart_draining_def restart_ready_def restart_started_def to_state_def)

lemma restart_started_reads:
  "drain_state restart_started = ''''" "restart_state restart_started = DrainStateScaledUp" "GetReplicas restart_started = 2"
  "getOriginalReplicas (wl_annotations restart_started) = Inr 1" "anno_get (wl_annotations restart_started) AnnotationHPAName = ''''"
  using demo_restart_fresh
  by (simp_all add: restart_started_def restart_record_def restart_fresh_def restart_eligible_def ro_SetReplicas_def
      ro_SetAnnotations_def ro_GetReplicas_def)

lemma restart_ready_reads:
  "drain_state restart_ready = ''''" "restart_state restart_ready = DrainStateReady"
  "getOriginalReplicas (wl_annotations restart_ready) = Inr 1" "anno_get (wl_annotations restart_ready) AnnotationHPAName = ''''"
  using restart_started_reads by (simp_all add: restart_ready_def to_state_def)

lemma restart_draining_reads:
  "drain_state restart_draining = ''''" "restart_state restart_draining = DrainStateDraining"
  "getOriginalReplicas (wl_annotations restart_draining) = Inr (GetReplicas restart_draining)"
  using restart_ready_reads by (simp_all add: restart_draining_def to_state_def)

lemma restart_second: "patched_last restart_started (restart_calls restart_started 1) = restart_ready"
  using progress_calls [OF restart_progress_scaled_up [where ro = "rollout_in restart_started" and k = 1] restart_fav2]
  unfolding restart_rollouts by (simp add: restart_started_reads restart_ready_def)

lemma restart_third: "patched_last restart_ready (restart_calls restart_ready 2) = restart_draining"
  using progress_calls [OF restart_progress_ready [where ro = "rollout_in restart_ready" and k = 1 and h = "''''"] restart_fav3]
  unfolding restart_rollouts by (simp add: restart_ready_reads restart_draining_def)

lemma restart_fourth: "patched_last restart_draining (restart_calls restart_draining 3) = restart_done"
  using progress_calls [OF restart_progress_draining [where ro = "rollout_in restart_draining"] restart_fav4]
  unfolding restart_rollouts by (simp add: restart_draining_reads restart_done_def)

definition demo_restart_rounds :: "(cluster, api_call) world list" where
  "demo_restart_rounds = [demo_restart ! 0, demo_restart ! 0, demo_restart ! 1, demo_restart ! 2, demo_restart ! 3, demo_restart ! 4]"

lemma restart_wait_quiet:
  "writes (restart_calls restart_started 0) = []"
  "\<not> list_all (restart_good sim demo_config restart_started) (restart_calls restart_started 0)"
  by code_simp+

lemma demo_restart_steady:
  "steady_run (restart_good sim demo_config) (restart_rec sim demo_config None) (RolloutWorkload demo_rollout) demo_restart_rounds"
  "good_rounds (restart_good sim demo_config) (restart_rec sim demo_config None) (RolloutWorkload demo_rollout) demo_restart_rounds = 5"
  unfolding demo_restart_rounds_def
  using restart_fav1 restart_fav2 restart_fav3 restart_fav4 restart_fav5 restart_first restart_wait_quiet
  by (simp_all add: Let_def restart_second restart_third restart_fourth del: One_nat_def)

theorem restart_completes_witness:
  "remdups_adj (map restart_state (RolloutWorkload demo_rollout #
       run_stages (restart_rec sim demo_config None) (RolloutWorkload demo_rollout) demo_restart_rounds)) =
     ['''', DrainStateScaledUp, DrainStateReady, DrainStateDraining, DrainStateDone, '''']"
  using restart_completes [OF demo_restart_fresh demo_restart_steady] by blast

end
