(* ===== verification/RestartBookkeeping.thy ===== *)
theory RestartBookkeeping
  imports Bookkeeping RestartLifecycle
begin

text \<open>
  What the restart controller keeps true of the values it stores, parallel to
  \<open>Bookkeeping\<close>: the annotations of a restart surge stay readable.
\<close>

section \<open>Typed annotations\<close>

definition restart_typed :: "DrainableWorkload \<Rightarrow> bool" where
  "restart_typed wl \<longleftrightarrow>
     restart_state wl \<in> {'''', DrainStateScaledUp, DrainStateReady, DrainStateDraining, DrainStateDone} \<and>
     (restart_state wl \<noteq> '''' \<longrightarrow> \<not> isl (getOriginalReplicas (wl_annotations wl)) \<and>
        parseRestartSurgeStart (wl_annotations wl) \<noteq> None) \<and>
     (anno_get (wl_annotations wl) AnnotationHPAName \<noteq> '''' \<longrightarrow>
        \<not> isl (strconv_Atoi (anno_get (wl_annotations wl) AnnotationHPAOriginalMinReplicas)))"

lemma restart_typed_SetReplicas [simp]: "restart_typed (SetReplicas n wl) = restart_typed wl"
  by (simp add: restart_typed_def)

lemma parseRestartSurgeStart_upd [simp]:
  "k \<noteq> AnnotationRestartSurgeStart \<Longrightarrow> parseRestartSurgeStart (Some (m(k \<mapsto> v))) = parseRestartSurgeStart (Some m)"
  by (simp add: parseRestartSurgeStart_def parseRFC3339Annotation_def anno_lookup_def anno_get_def)

lemma parseRestartSurgeStart_make [simp]: "parseRestartSurgeStart (Some (anno_make a)) = parseRestartSurgeStart a"
  by (cases a) (simp_all add: parseRestartSurgeStart_def parseRFC3339Annotation_def anno_make_def anno_lookup_def anno_get_def)

lemma restart_typed_to_state:
  assumes "restart_typed wl" "restart_state wl \<noteq> ''''"
    "s \<in> {DrainStateScaledUp, DrainStateReady, DrainStateDraining, DrainStateDone}"
  shows "restart_typed (to_state AnnotationRestartSurgeState s wl)"
  using assms by (auto simp: restart_typed_def to_state_def)

lemma restart_typed_cleared:
  "cleared restartSurgeFullKeys (wl_annotations wl) (wl_annotations wl') \<Longrightarrow> restart_typed wl'"
  by (simp add: restart_typed_def cleared_def anno_get_def)

lemma restart_typed_aborted [simp]: "restart_typed (restart_aborted wl)"
  by (rule restart_typed_cleared [of wl], rule restart.cleared_aborted)

lemma restart_typed_yielded: "restart_typed wl \<Longrightarrow> restart_typed (yielded wl)"
  by (simp add: restart_typed_def anno_get_def yielded_lookup key_list_defs)

lemma restart_typed_start:
  assumes "restart_typed wl" "rfc3339_range t"
  shows "restart_typed (SetReplicas n (SetAnnotations (Some (restart_record wl t)) wl))"
    "restart_typed (SetAnnotations (Some ((restart_record wl t)(AnnotationHPAName \<mapsto> h,
       AnnotationHPAOriginalMinReplicas \<mapsto> strconv_Itoa (sint (k :: int32))))) wl)"
proof -
  have date: "parseRestartSurgeStart (Some (m(AnnotationRestartSurgeStart \<mapsto> time_Format_RFC3339 t))) = Some (t div nanos * nanos)" for m
    unfolding parseRestartSurgeStart_def by (rule parseRFC3339Annotation_Format) (simp_all add: assms(2))
  show "restart_typed (SetReplicas n (SetAnnotations (Some (restart_record wl t)) wl))"
    "restart_typed (SetAnnotations (Some ((restart_record wl t)(AnnotationHPAName \<mapsto> h,
       AnnotationHPAOriginalMinReplicas \<mapsto> strconv_Itoa (sint (k :: int32))))) wl)"
    using assms(1) by (auto simp: restart_typed_def restart_record_def date)
qed

lemma restart_surge_typed:
  assumes "restart_typed (RolloutWorkload ro)"
  shows "emits (restart_surge K cfg now ro) (\<lambda>r l. datable l \<longrightarrow> patches_ok restart_typed l)"
  unfolding restart_surge_def
  by (intro case_vc emits_intros case_sumI)
    (use restart_typed_start [OF assms] in \<open>auto simp: api_result_Inl_iff restart_record_def
      simp del: GetObjectMeta.simps GetReplicas.simps SetReplicas.simps SetAnnotations.simps Object.simps\<close>)

lemma restart_pending_typed:
  assumes "restart_typed (RolloutWorkload ro)"
  shows "emits (handleRestartPending K cfg now ro) (\<lambda>r l. datable l \<longrightarrow> patches_ok restart_typed l)"
  unfolding handleRestartPending_def Let_def
  by (intro case_vc emits_intros case_sumI emits_mono [OF restart_surge_typed [OF assms]]) auto

lemma restart_handlers_typed:
  assumes "restart_typed (RolloutWorkload ro)" "restart_state (RolloutWorkload ro) \<noteq> ''''"
  shows "emits (restart_dispatch K cfg now ro (restart_state (RolloutWorkload ro))) (\<lambda>r l. patches_ok restart_typed l)"
proof -
  let ?wl = "RolloutWorkload ro"
  note to_state = restart_typed_to_state [OF assms]
  have up: "emits (handleRestartWaitReady K cfg ?wl) (\<lambda>r l. patches_ok restart_typed l)"
    unfolding handleRestartWaitReady_def restartWaitReady_check_def
    by (intro case_vc emits_intros case_sumI)
      (auto simp: api_result_Inl_iff annotate_to_state [OF assms(2)] assms(1) to_state intro: abort_trace_patches
        simp del: GetObjectMeta.simps SetReplicas.simps Object.simps)
  have ready: "emits (handleRestartWaitForArgo K cfg ro) (\<lambda>r l. patches_ok restart_typed l)"
    unfolding handleRestartWaitForArgo_def restart_finish_def restart_restoreHPA_eq Let_def
    by (intro case_vc emits_intros case_sumI)
      (use restart_typed_to_state [of "SetReplicas _ ?wl"] assms in
        \<open>auto simp: api_result_Inl_iff annotate_to_state_original to_state intro: abort_trace_patches restore_trace_patches
          simp del: GetObjectMeta.simps SetReplicas.simps Object.simps\<close>)
  have draining: "emits (handleRestartScaleDown K cfg ?wl) (\<lambda>r l. patches_ok restart_typed l)"
    unfolding handleRestartScaleDown_def
    by (intro case_vc emits_intros case_sumI)
      (use restart_typed_to_state [of "SetReplicas _ ?wl"] assms in
        \<open>auto simp: api_result_Inl_iff annotate_to_state_original to_state intro: abort_trace_patches
          simp del: GetObjectMeta.simps SetReplicas.simps Object.simps\<close>)
  have finished: "emits (handleRestartCleanup K ?wl) (\<lambda>r l. patches_ok restart_typed l)"
    unfolding handleRestartCleanup_def
    by (intro case_vc emits_intros case_sumI)
      (auto simp: api_result_Inl_iff restart_typed_cleared [of ?wl] restart.cleared_clear
        simp del: GetObjectMeta.simps SetAnnotations.simps Object.simps)
  from assms show ?thesis
    by (auto simp: restart_dispatch_def Let_def restart_typed_def DrainStateNone_def up ready draining finished simp del: GetObjectMeta.simps)
qed

text \<open>
  C20. The restart annotations stay readable: if those of a Rollout hold values of their types, so do
  those of every object a reconcile patches, an abort and a yield to a drain included, provided the
  clock is in the range of RFC 3339. A surge the controller has started is therefore always dated and
  always has its original count on record, so that the timeout applies to it and an abort can restore it.
\<close>

theorem restart_annotations_stay_typed:
  assumes "restart_typed (RolloutWorkload ro)"
  shows "emits (restart_reconcileWorkload K cfg now ro) (\<lambda>r l.
     (\<forall>t. ReadClock t \<in> set l \<longrightarrow> rfc3339_range t) \<longrightarrow> patches_ok restart_typed l)"
proof (rule emits_restart_reconcileWorkload)
  fix pre assume pre: "restart_prefix cfg (RolloutWorkload ro) pre"
  note quiet = restart_prefix_patches [OF pre, of restart_typed]
  show "emits (yieldToDrain K (RolloutWorkload ro)) (\<lambda>r l. datable (pre @ l) \<longrightarrow> patches_ok restart_typed (pre @ l))"
    unfolding yieldToDrain_eq
    by (intro case_vc emits_intros case_sumI) (use quiet restart_typed_yielded [OF assms] in auto)
  show "emits (restart_dispatch K cfg now ro (restart_state (RolloutWorkload ro)))
     (\<lambda>r l. datable (pre @ l) \<longrightarrow> patches_ok restart_typed (pre @ l))"
  proof (cases "restart_state (RolloutWorkload ro) = ''''")
    case True
    then have "restart_dispatch K cfg now ro (restart_state (RolloutWorkload ro)) = handleRestartPending K cfg now ro"
      by (simp add: restart_dispatch_def DrainStateNone_def)
    then show ?thesis using quiet by (auto intro: emits_mono [OF restart_pending_typed [OF assms]])
  next
    case False
    show ?thesis by (rule emits_mono [OF restart_handlers_typed [OF assms False]]) (simp add: quiet)
  qed
qed (auto intro: abort_trace_patches)

theorem restart_annotations_stay_typed_witness:
  "restart_typed (RolloutWorkload demo_rollout) \<and>
   (\<exists>wl'. restart_typed wl' \<and> restart_state wl' = DrainStateScaledUp)"
proof -
  let ?m = "restart_reconcileWorkload sim demo_config None demo_rollout"
  let ?w = "demo_cluster\<lparr>c_rollouts := [demo_rollout]\<rparr>"
  have typed: "restart_typed (RolloutWorkload demo_rollout)" by code_simp
  have clock: "list_all (\<lambda>c. case c of ReadClock t \<Rightarrow> t = t0 | _ \<Rightarrow> True) (trace_of ?m ?w)" by code_simp
  have "patched_to AnnotationRestartSurgeState DrainStateScaledUp (trace_of ?m ?w)" by code_simp
  moreover from clock have "\<forall>t. ReadClock t \<in> set (trace_of ?m ?w) \<longrightarrow> rfc3339_range t"
    using demo_t0(1) by (auto simp: list_all_iff)
  then have "patches_ok restart_typed (trace_of ?m ?w)"
    using emits_run [OF restart_annotations_stay_typed [OF typed], of sim demo_config None ?w] by blast
  ultimately obtain wl' where "restart_typed wl'" "restart_state wl' = DrainStateScaledUp" using patched_toD by blast
  with typed show ?thesis by blast
qed

end
