(* ===== verification/Journal.thy ===== *)
theory Journal
  imports RestartLifecycle
begin

text \<open>
  What must have been seen before an operation may go on, over whole histories. A journal holds the
  reconciles of the operation under way, each with the object it read and the calls it made. The locale
  \<open>journaled_surge\<close> shows once, from what single reconciles see, that an operation is in state ready,
  draining or done only if its journal has the evidence for it, in the right order; both controllers
  interpret it.
\<close>

lemma in_patched_objects: "obj \<in> set (patched_objects l) \<longleftrightarrow> (\<exists>p a. PatchObject obj p a \<in> set l)"
  by (induction l rule: patched_objects.induct) auto

lemma Object_workload_of: "Object (workload_of obj) = obj"
  by (cases obj) simp_all

section \<open>Journals\<close>

type_synonym journal = "(DrainableWorkload \<times> api_call list) list"

text \<open>A reconcile of an idle workload opens a new journal.\<close>

definition journal_add :: "string \<Rightarrow> DrainableWorkload \<Rightarrow> api_call list \<Rightarrow> journal \<Rightarrow> journal" where
  "journal_add key wl l J = (if anno_get (wl_annotations wl) key = '''' then [(wl, l)] else J @ [(wl, l)])"

definition agree :: "string list \<Rightarrow> DrainableWorkload \<Rightarrow> DrainableWorkload \<Rightarrow> bool" where
  "agree ks wl wl' \<longleftrightarrow> (\<forall>k \<in> set ks. anno_lookup (wl_annotations wl') k = anno_lookup (wl_annotations wl) k)"

lemma agree_refl [simp]: "agree ks wl wl"
  by (simp add: agree_def)

lemma agree_get: "agree ks wl wl' \<Longrightarrow> k \<in> set ks \<Longrightarrow> anno_get (wl_annotations wl') k = anno_get (wl_annotations wl) k"
  by (simp add: agree_def anno_get_def)

lemma agree_merged: "set ks \<subseteq> set drainAnnotationKeys \<Longrightarrow> agree ks wl' (merged (patch_of wl') current)"
  unfolding agree_def by (blast intro: anno_lookup_merged_owned)

text \<open>
  The objects the server may hold, with the journal of the operation under way. A patch may have been
  applied whatever the client was told. Other actors may change anything but the annotations \<open>watch\<close>,
  also between the read and the write of a reconcile; or end the operation.
\<close>

inductive journaled ::
  "string \<Rightarrow> string list \<Rightarrow> (DrainableWorkload \<Rightarrow> api_call list \<Rightarrow> bool) \<Rightarrow> DrainableWorkload \<Rightarrow> journal \<Rightarrow> bool"
  for key watch calls where
  idle: "anno_get (wl_annotations wl) key = '''' \<Longrightarrow> journaled key watch calls wl []"
| silent: "journaled key watch calls wl J \<Longrightarrow> calls wl l \<Longrightarrow> journaled key watch calls wl (journal_add key wl l J)"
| written: "journaled key watch calls wl J \<Longrightarrow> calls wl l \<Longrightarrow> PatchObject (Object wl') p a \<in> set l \<Longrightarrow>
    agree watch wl current \<Longrightarrow> journaled key watch calls (merged p current) (journal_add key wl l J)"
| outside: "journaled key watch calls wl J \<Longrightarrow> agree watch wl wl' \<Longrightarrow> journaled key watch calls wl' J"

text \<open>Some reconcile of the operation \<open>t\<close> has seen \<open>P\<close>.\<close>

definition shown ::
  "(DrainableWorkload \<Rightarrow> api_call list \<Rightarrow> bool) \<Rightarrow> (DrainableWorkload \<Rightarrow> 't) \<Rightarrow> 't \<Rightarrow> journal \<Rightarrow> bool" where
  "shown P tag t J \<longleftrightarrow> (\<exists>(wl, l) \<in> set J. tag wl = t \<and> P wl l)"

lemma shown_append [simp]: "shown P tag t (J @ J') \<longleftrightarrow> shown P tag t J \<or> shown P tag t J'"
  by (auto simp: shown_def)

lemma shown_one [simp]: "shown P tag t [(wl, l)] \<longleftrightarrow> tag wl = t \<and> P wl l"
  by (simp add: shown_def)

definition shown_in_order ::
  "(DrainableWorkload \<Rightarrow> api_call list \<Rightarrow> bool) \<Rightarrow> (DrainableWorkload \<Rightarrow> api_call list \<Rightarrow> bool) \<Rightarrow>
   (DrainableWorkload \<Rightarrow> 't) \<Rightarrow> 't \<Rightarrow> journal \<Rightarrow> bool" where
  "shown_in_order P P' tag t J \<longleftrightarrow> (\<exists>J1 J2. J = J1 @ J2 \<and> shown P tag t J1 \<and> shown P' tag t J2)"

lemma shown_in_order_append: "shown_in_order P P' tag t J \<Longrightarrow> shown_in_order P P' tag t (J @ J')"
  unfolding shown_in_order_def by (metis append.assoc shown_append)

lemma shown_in_order_snoc: "shown P tag t J \<Longrightarrow> shown P' tag t J' \<Longrightarrow> shown_in_order P P' tag t (J @ J')"
  by (auto simp: shown_in_order_def)

text \<open>The phase a step leads to determines the phase it comes from.\<close>

lemma surge_step_from:
  assumes "surge_step y v v'"
  shows "sv_phase v' = Ready \<Longrightarrow> sv_phase v = ScaledUp" "sv_phase v' = Draining \<Longrightarrow> sv_phase v = Ready"
    "sv_phase v' = Done \<Longrightarrow> sv_phase v = Draining"
  using assms by (auto elim: surge_step.cases)

locale journaled_surge =
  fixes key :: string
    and watch :: "string list"
    and calls :: "DrainableWorkload \<Rightarrow> api_call list \<Rightarrow> bool"
    and up down :: "DrainableWorkload \<Rightarrow> api_call list \<Rightarrow> bool"
    and tag :: "DrainableWorkload \<Rightarrow> 't"
    and valid :: "'t \<Rightarrow> bool"
  assumes key_watch: "key \<in> set watch"
    and watch_owned: "set watch \<subseteq> set drainAnnotationKeys"
    and tag_watch: "agree watch wl wl' \<Longrightarrow> tag wl' = tag wl"
    and patch: "calls wl l \<Longrightarrow> PatchObject (Object wl') p a \<in> set l \<Longrightarrow> p = patch_of wl'"
    and step: "calls wl l \<Longrightarrow> PatchObject (Object wl') p a \<in> set l \<Longrightarrow> \<exists>y. surge_step y (view key wl) (view key wl')"
    and begins: "calls wl l \<Longrightarrow> PatchObject (Object wl') p a \<in> set l \<Longrightarrow>
      anno_get (wl_annotations wl) key = '''' \<Longrightarrow> anno_get (wl_annotations wl') key \<noteq> '''' \<Longrightarrow> valid (tag wl')"
    and continues: "calls wl l \<Longrightarrow> PatchObject (Object wl') p a \<in> set l \<Longrightarrow>
      anno_get (wl_annotations wl) key \<noteq> '''' \<Longrightarrow> anno_get (wl_annotations wl') key \<noteq> '''' \<Longrightarrow> tag wl' = tag wl"
    and sees_up: "calls wl l \<Longrightarrow> PatchObject (Object wl') p a \<in> set l \<Longrightarrow> valid (tag wl) \<Longrightarrow>
      anno_get (wl_annotations wl) key = DrainStateScaledUp \<Longrightarrow> anno_get (wl_annotations wl') key = DrainStateReady \<Longrightarrow> up wl l"
    and sees_down: "calls wl l \<Longrightarrow> PatchObject (Object wl') p a \<in> set l \<Longrightarrow> valid (tag wl) \<Longrightarrow>
      anno_get (wl_annotations wl) key = DrainStateReady \<Longrightarrow> anno_get (wl_annotations wl') key = DrainStateDraining \<Longrightarrow> down wl l"
begin

lemma step_from:
  assumes "calls wl l" "PatchObject (Object wl') p a \<in> set l"
  shows "anno_get (wl_annotations wl') key = DrainStateReady \<Longrightarrow> anno_get (wl_annotations wl) key = DrainStateScaledUp"
    "anno_get (wl_annotations wl') key = DrainStateDraining \<Longrightarrow> anno_get (wl_annotations wl) key = DrainStateReady"
    "anno_get (wl_annotations wl') key = DrainStateDone \<Longrightarrow> anno_get (wl_annotations wl) key = DrainStateDraining"
  using step [OF assms] surge_step_from by fastforce+

text \<open>The invariant, first for the object of a patch, then for the objects of a history.\<close>

definition evident :: "DrainableWorkload \<Rightarrow> journal \<Rightarrow> bool" where
  "evident wl J \<longleftrightarrow>
     (anno_get (wl_annotations wl) key \<noteq> '''' \<longrightarrow> valid (tag wl)) \<and>
     (anno_get (wl_annotations wl) key = DrainStateReady \<longrightarrow> shown up tag (tag wl) J) \<and>
     (anno_get (wl_annotations wl) key \<in> {DrainStateDraining, DrainStateDone} \<longrightarrow> shown_in_order up down tag (tag wl) J)"

lemma evident_agree: "evident wl J \<Longrightarrow> agree watch wl wl' \<Longrightarrow> evident wl' J"
  unfolding evident_def by (simp add: tag_watch agree_get key_watch)

lemma evident_silent: "evident wl J \<Longrightarrow> evident wl (journal_add key wl l J)"
  unfolding evident_def journal_add_def by (auto simp: shown_in_order_append)

lemma evident_patched:
  assumes "evident wl J" "calls wl l" "PatchObject (Object wl') p a \<in> set l"
  shows "evident wl' (journal_add key wl l J)"
proof (cases "anno_get (wl_annotations wl) key = '''' \<or> anno_get (wl_annotations wl') key = ''''")
  case True
  with begins [OF assms(2,3)] step_from [OF assms(2,3)] show ?thesis by (auto simp: evident_def)
next
  case False
  with continues [OF assms(2,3)] have tag: "tag wl' = tag wl" by simp
  from False assms(1) have valid: "valid (tag wl)" by (simp add: evident_def)
  note ev = assms(1) [unfolded evident_def] step_from [OF assms(2,3)]
  show ?thesis
    unfolding evident_def tag
    using False valid ev sees_up [OF assms(2,3) valid] sees_down [OF assms(2,3) valid]
    by (auto simp: journal_add_def intro: shown_in_order_append shown_in_order_snoc)
qed

lemma journaled_evident: "journaled key watch calls wl J \<Longrightarrow> evident wl J"
proof (induction rule: journaled.induct)
  case (written wl J l wl' p a current)
  have "agree watch wl' (merged p current)"
    unfolding patch [OF written.hyps(2,3)] by (rule agree_merged [OF watch_owned])
  with evident_patched [OF written.IH written.hyps(2,3)] show ?case by (rule evident_agree)
qed (auto simp: evident_def [of _ "[]"] intro: evident_agree evident_silent)

text \<open>The object a reconcile patched last is one of the history; without a patch it is the object read.\<close>

lemma journaled_run:
  assumes "journaled key watch calls wl J" "calls wl l"
  shows "journaled key watch calls (patched_last wl l) (journal_add key wl l J)"
proof (cases "patched_objects l = []")
  case True
  with journaled.silent [OF assms] show ?thesis by (simp add: patched_last_def)
next
  case False
  let ?wl = "patched_last wl l"
  have "last (patched_objects l) = Object ?wl"
    using False Object_workload_of [of "last (patched_objects l)"] by (auto simp: patched_last_def split: list.splits)
  with False have "Object ?wl \<in> set (patched_objects l)" by (metis last_in_set)
  then obtain p a where pa: "PatchObject (Object ?wl) p a \<in> set l" by (auto simp: in_patched_objects)
  from journaled.written [OF assms pa agree_refl]
  have "journaled key watch calls (merged (patch_of ?wl) wl) (journal_add key wl l J)" unfolding patch [OF assms(2) pa] .
  moreover have "agree watch (merged (patch_of ?wl) wl) ?wl" using agree_merged [OF watch_owned] by (simp add: agree_def)
  ultimately show ?thesis by (rule journaled.outside)
qed

end

lemma ran_patched:
  assumes "emits m (\<lambda>r l. patches_ok (P l) l)" "ran m r l" "PatchObject (Object wl') p a \<in> set l"
  shows "P l wl'" "p = patch_of wl'"
  using patches_ok_in [OF ranD [OF assms(1,2)] assms(3)] by auto

section \<open>The drain controller\<close>

text \<open>A list of the workload's pods with a ready one elsewhere; one with none alive on the node.\<close>

definition saw_replacement :: "'s platform \<Rightarrow> DrainableWorkload \<Rightarrow> api_call list \<Rightarrow> bool" where
  "saw_replacement K wl l \<longleftrightarrow>
     (\<exists>pods. ListMatchingPods (Namespace (GetObjectMeta wl)) (GetPodSelector K wl) (Inr pods) \<in> set l \<and>
        (\<exists>pod \<in> set pods. pod_NodeName pod \<noteq> drain_node wl \<and> isPodReady pod \<and> \<not> isPodTerminating pod))"

definition saw_eviction :: "'s platform \<Rightarrow> DrainableWorkload \<Rightarrow> api_call list \<Rightarrow> bool" where
  "saw_eviction K wl l \<longleftrightarrow>
     (\<exists>pods. ListMatchingPods (Namespace (GetObjectMeta wl)) (GetPodSelector K wl) (Inr pods) \<in> set l \<and>
        \<not> (\<exists>pod \<in> set pods. pod_NodeName pod = drain_node wl \<and> \<not> isPodTerminating pod \<and>
             pod_Phase pod \<noteq> PodSucceeded \<and> pod_Phase pod \<noteq> PodFailed)) \<and>
     (anno_get (wl_annotations wl) AnnotationHPAName = '''' \<or>
        (\<exists>n. strconv_Atoi (anno_get (wl_annotations wl) AnnotationHPAOriginalMinReplicas) = Inr n \<and>
           PatchHPA (Namespace (GetObjectMeta wl)) (anno_get (wl_annotations wl) AnnotationHPAName)
             (word_of_int n) (Inr ()) \<in> set l))"

text \<open>An operation is identified by its node and the time of its start.\<close>

definition drain_op :: "DrainableWorkload \<Rightarrow> string \<times> string" where
  "drain_op wl = (drain_node wl, anno_get (wl_annotations wl) AnnotationDrainStart)"

definition drain_evidence :: "'s platform \<Rightarrow> string \<Rightarrow> DrainableWorkload \<Rightarrow> api_call list \<Rightarrow> DrainableWorkload \<Rightarrow> bool" where
  "drain_evidence K nodeName wl l wl' \<longleftrightarrow> drain_state wl' = '''' \<or>
     (if drain_state wl = '''' then drain_node wl' = nodeName
      else drain_op wl' = drain_op wl \<and>
        (drain_node wl \<noteq> '''' \<longrightarrow>
          (drain_state wl = DrainStateScaledUp \<and> drain_state wl' = DrainStateReady \<longrightarrow> saw_replacement K wl l) \<and>
          (drain_state wl = DrainStateReady \<and> drain_state wl' = DrainStateDraining \<longrightarrow> saw_eviction K wl l)))"

lemma drain_evidence_mono: "drain_evidence K n wl l wl' \<Longrightarrow> set l \<subseteq> set l' \<Longrightarrow> drain_evidence K n wl l' wl'"
  unfolding drain_evidence_def saw_replacement_def saw_eviction_def by (auto split: if_splits; blast)

lemma drain_evidence_aborted [simp]: "drain_evidence K n wl l (drain_aborted wl)"
  by (simp add: drain_evidence_def)

lemma drain_op_to_state [simp]: "drain_op (to_state AnnotationDrainState s wl) = drain_op wl"
  "drain_op (SetReplicas n wl) = drain_op wl" "drain_op (if b then SetReplicas n wl else wl) = drain_op wl"
  by (simp_all add: drain_op_def to_state_def)

lemma handlePending_evidence:
  "drain_state wl = '''' \<Longrightarrow> emits (handlePending K cfg wl nodeName) (\<lambda>r l. patches_ok (drain_evidence K nodeName wl l) l)"
  unfolding handlePending_def by (intro case_vc emits_intros case_sumI) (auto simp: drain_evidence_def)

lemma handlers_evidence:
  assumes "drain_state wl \<noteq> ''''" "drain_node wl \<in> {'''', nodeName}"
  shows "emits (drain_dispatch K cfg wl nodeName (drain_state wl)) (\<lambda>r l. patches_ok (drain_evidence K nodeName wl l) l)"
proof -
  have pending: "emits (handleScaleUp K cfg wl nodeName) (\<lambda>r l. patches_ok (drain_evidence K nodeName wl l) l)"
    if "drain_state wl = DrainStatePending"
    unfolding handleScaleUp_def
    by (intro case_vc emits_intros case_sumI)
      (auto simp: annotate_to_state_original that drain_evidence_def intro: abort_trace_patches)
  have up: "emits (handleWaitReady K cfg wl nodeName) (\<lambda>r l. patches_ok (drain_evidence K nodeName wl l) l)"
    if "drain_state wl = DrainStateScaledUp"
    unfolding handleWaitReady_def waitReady_check_def
    by (intro case_vc emits_intros case_sumI)
      (use assms(2) in \<open>auto simp: annotate_to_state [of _ AnnotationDrainState] that drain_evidence_def saw_replacement_def
        ready_pod_elsewhere_iff intro: abort_trace_patches\<close>)
  have ready: "emits (handleWaitEviction K cfg wl nodeName) (\<lambda>r l. patches_ok (drain_evidence K nodeName wl l) l)"
    if "drain_state wl = DrainStateReady"
    unfolding handleWaitEviction_def
    by (intro case_vc emits_intros case_sumI)
      (use assms(2) in \<open>auto simp: annotate_to_state_original that drain_evidence_def saw_eviction_def live_pod_on_node_iff
        intro: abort_trace_patches elim!: restore_trace.cases\<close>)
  have draining: "emits (handleScaleDown K cfg wl) (\<lambda>r l. patches_ok (drain_evidence K nodeName wl l) l)"
    if "drain_state wl = DrainStateDraining"
    unfolding handleScaleDown_def
    by (intro case_vc emits_intros case_sumI)
      (auto simp: annotate_to_state_original that drain_evidence_def intro: abort_trace_patches)
  have finished: "emits (handleCleanup K wl) (\<lambda>r l. patches_ok (drain_evidence K nodeName wl l) l)"
    unfolding handleCleanup_def
    by (intro case_vc emits_intros case_sumI) (auto simp: drain_evidence_def clearDrainAnnotations_def)
  from assms(1) show ?thesis
    by (auto simp: drain_dispatch_def DrainStateNone_def pending up ready draining finished
        intro!: emits_abortWorkload intro: abort_trace_patches)
qed

lemma reconcile_evidence:
  "emits (reconcileWorkload K cfg wl nodeName) (\<lambda>r l. patches_ok (drain_evidence K nodeName wl l) l)"
proof (rule emits_reconcileWorkload)
  fix pre assume pre: "reconcile_prefix cfg nodeName wl pre"
  then have quiet: "patches_ok P pre" for P by (intro writes_Nil_patches reconcile_prefix_writes)
  have "emits (drain_dispatch K cfg wl nodeName (drain_state wl)) (\<lambda>r l. patches_ok (drain_evidence K nodeName wl l) l)"
  proof (cases "drain_state wl = ''''")
    case True
    with handlePending_evidence show ?thesis by (simp add: drain_dispatch_def DrainStateNone_def)
  next
    case False
    with pre show ?thesis by (intro handlers_evidence) (auto elim: reconcile_prefixE)
  qed
  then show "emits (drain_dispatch K cfg wl nodeName (drain_state wl)) (\<lambda>r l. patches_ok (drain_evidence K nodeName wl (pre @ l)) (pre @ l))"
    by (rule emits_mono) (auto simp: quiet elim!: patches_ok_mono intro: drain_evidence_mono)
qed (auto intro: abort_trace_patches writes_Nil_patches)

text \<open>The calls of a reconcile of the workload, for a node with a name.\<close>

definition drain_calls :: "'s platform \<Rightarrow> Config \<Rightarrow> DrainableWorkload \<Rightarrow> api_call list \<Rightarrow> bool" where
  "drain_calls K cfg wl l \<longleftrightarrow> (\<exists>nodeName r. nodeName \<noteq> '''' \<and> ran (reconcileWorkload K cfg wl nodeName) r l)"

abbreviation drain_watch :: "string list" where
  "drain_watch \<equiv> [AnnotationDrainState, AnnotationDrainNode, AnnotationDrainStart]"

lemma drain_calls_patched:
  assumes "drain_calls K cfg wl l" "PatchObject (Object wl') p a \<in> set l"
  shows "p = patch_of wl' \<and> drain_write wl wl' \<and> (\<exists>nodeName. nodeName \<noteq> '''' \<and> drain_evidence K nodeName wl l wl')"
proof -
  obtain n r where n: "n \<noteq> ''''" "ran (reconcileWorkload K cfg wl n) r l" using assms(1) by (auto simp: drain_calls_def)
  have "emits (reconcileWorkload K cfg wl n) (\<lambda>r l. patches_ok (drain_write wl) l)"
    by (rule emits_mono [OF drain_ok_reconcileWorkload]) (simp add: drain_ok_def)
  from ran_patched [OF this n(2) assms(2)] ran_patched(1) [OF reconcile_evidence n(2) assms(2)] n(1) show ?thesis by blast
qed

interpretation drain_journal: journaled_surge AnnotationDrainState drain_watch "drain_calls K cfg"
  "saw_replacement K" "saw_eviction K" drain_op "\<lambda>(n, s). n \<noteq> ''''" for K :: "'s platform" and cfg
proof (unfold_locales, goal_cases)
  case (3 wl wl')
  then show ?case by (simp add: drain_op_def agree_get)
next
  case (5 wl l wl' p a)
  from drain_calls_patched [OF 5] show ?case by (auto simp: surge_write_def)
qed (auto dest!: drain_calls_patched simp: drain_evidence_def drain_op_def split: if_splits)

section \<open>The restart controller\<close>

definition saw_two_ready :: "'s platform \<Rightarrow> DrainableWorkload \<Rightarrow> api_call list \<Rightarrow> bool" where
  "saw_two_ready K wl l \<longleftrightarrow>
     (\<exists>pods. ListMatchingPods (Namespace (GetObjectMeta wl)) (GetPodSelector K wl) (Inr pods) \<in> set l \<and>
        2 \<le> length (filter (\<lambda>p. \<not> isPodTerminating p \<and> isPodReady p) pods))"

definition saw_restart_over :: "'s platform \<Rightarrow> DrainableWorkload \<Rightarrow> api_call list \<Rightarrow> bool" where
  "saw_restart_over K wl l \<longleftrightarrow>
     (\<exists>ro. wl = RolloutWorkload ro \<and>
        (ro_RestartAt ro \<noteq> None \<and> ro_RestartAt ro = ro_RestartedAt ro \<or>
         (\<exists>pods. ListMatchingPods (Namespace (ro_ObjectMeta ro)) (ro_GetPodSelector K ro) (Inr pods) \<in> set l \<and>
            (\<forall>t. ro_RestartAt ro = Some t \<longrightarrow>
               \<not> (\<exists>p \<in> set pods. DeletionTimestamp (pod_ObjectMeta p) = None \<and> CreationTimestamp (pod_ObjectMeta p) < t))))) \<and>
     (anno_get (wl_annotations wl) AnnotationHPAName = '''' \<or>
        (\<exists>n. strconv_Atoi (anno_get (wl_annotations wl) AnnotationHPAOriginalMinReplicas) = Inr n \<and>
           PatchHPA (Namespace (GetObjectMeta wl)) (anno_get (wl_annotations wl) AnnotationHPAName)
             (word_of_int n) (Inr ()) \<in> set l))"

definition restart_op :: "DrainableWorkload \<Rightarrow> string" where
  "restart_op wl = anno_get (wl_annotations wl) AnnotationRestartSurgeStart"

definition restart_evidence :: "'s platform \<Rightarrow> DrainableWorkload \<Rightarrow> api_call list \<Rightarrow> DrainableWorkload \<Rightarrow> bool" where
  "restart_evidence K wl l wl' \<longleftrightarrow> restart_state wl = '''' \<or> restart_state wl' = '''' \<or>
     restart_op wl' = restart_op wl \<and>
     (restart_state wl = DrainStateScaledUp \<and> restart_state wl' = DrainStateReady \<longrightarrow> saw_two_ready K wl l) \<and>
     (restart_state wl = DrainStateReady \<and> restart_state wl' = DrainStateDraining \<longrightarrow> saw_restart_over K wl l)"

lemma restart_evidence_mono: "restart_evidence K wl l wl' \<Longrightarrow> set l \<subseteq> set l' \<Longrightarrow> restart_evidence K wl l' wl'"
  unfolding restart_evidence_def saw_two_ready_def saw_restart_over_def by blast

lemma restart_aborted_state [simp]: "restart_state (restart_aborted wl) = ''''"
  by (simp add: aborted_def clearRestartSurgeAnnotations_def)

lemma restart_op_to_state [simp]: "restart_op (to_state AnnotationRestartSurgeState s wl) = restart_op wl"
  "restart_op (SetReplicas n wl) = restart_op wl" "restart_op (if b then SetReplicas n wl else wl) = restart_op wl"
  by (simp_all add: restart_op_def to_state_def)

lemma restart_evidence_new:
  assumes "restart_state (RolloutWorkload ro) = ''''"
  shows "emits (handleRestartPending K cfg now ro) (\<lambda>r l. patches_ok (restart_evidence K (RolloutWorkload ro) l) l)"
  by (rule emits_mono [OF restart_ok_handlePending [OF assms]])
    (use assms in \<open>auto simp: restart_ok_def restart_evidence_def elim!: patches_ok_mono\<close>)

lemma restart_evidence_finish:
  assumes "restart_state (RolloutWorkload ro) = DrainStateReady"
  shows "emits (handleRestartWaitForArgo K cfg ro) (\<lambda>r l. patches_ok (restart_evidence K (RolloutWorkload ro) l) l)"
  unfolding handleRestartWaitForArgo_def restart_finish_def restart_restoreHPA_eq Let_def
  by (intro case_vc emits_intros case_sumI)
    (auto simp: annotate_to_state_original assms restart_evidence_def saw_restart_over_def restartCompletedByArgo_def
      has_older_pod_iff intro: abort_trace_patches elim!: restore_trace.cases split: option.splits if_splits
      simp del: SetReplicas.simps)

lemma restart_evidence_handlers:
  assumes "restart_state (RolloutWorkload ro) \<noteq> ''''"
  shows "emits (restart_dispatch K cfg now ro (restart_state (RolloutWorkload ro)))
    (\<lambda>r l. patches_ok (restart_evidence K (RolloutWorkload ro) l) l)"
proof -
  have pending: "emits (handleRestartScaleUp K cfg wl) (\<lambda>r l. patches_ok (restart_evidence K wl l) l)"
    if "restart_state wl = DrainStatePending" for wl
    unfolding handleRestartScaleUp_def
    by (intro case_vc emits_intros case_sumI) (auto simp: that restart_evidence_def intro: abort_trace_patches)
  have up: "emits (handleRestartWaitReady K cfg wl) (\<lambda>r l. patches_ok (restart_evidence K wl l) l)"
    if "restart_state wl = DrainStateScaledUp" for wl
    unfolding handleRestartWaitReady_def restartWaitReady_check_def
    by (intro case_vc emits_intros case_sumI)
      (auto simp: annotate_to_state [of _ AnnotationRestartSurgeState] that restart_evidence_def saw_two_ready_def
        count_ready_filter intro: abort_trace_patches)
  have draining: "emits (handleRestartScaleDown K cfg wl) (\<lambda>r l. patches_ok (restart_evidence K wl l) l)"
    if "restart_state wl = DrainStateDraining" for wl
    unfolding handleRestartScaleDown_def
    by (intro case_vc emits_intros case_sumI)
      (auto simp: annotate_to_state_original that restart_evidence_def intro: abort_trace_patches)
  have finished: "emits (handleRestartCleanup K wl) (\<lambda>r l. patches_ok (restart_evidence K wl l) l)" for wl
    unfolding handleRestartCleanup_def
    by (intro case_vc emits_intros case_sumI) (auto simp: restart_evidence_def clearRestartSurgeAnnotations_def)
  from assms show ?thesis
    by (auto simp: restart_dispatch_def Let_def DrainStateNone_def pending up restart_evidence_finish draining finished
        restart_evidence_def intro!: emits_abortRestartSurge intro: abort_trace_patches simp del: GetObjectMeta.simps)
qed

lemma restart_reconcile_evidence:
  "emits (restart_reconcileWorkload K cfg now ro) (\<lambda>r l. patches_ok (restart_evidence K (RolloutWorkload ro) l) l)"
proof (rule emits_restart_reconcileWorkload, goal_cases)
  case (2 pre)
  have "restart_state (yielded (RolloutWorkload ro)) = ''''"
    by (simp add: anno_get_def yielded_lookup key_list_defs)
  then have "restart_evidence K (RolloutWorkload ro) l (yielded (RolloutWorkload ro))" for l
    by (simp add: restart_evidence_def del: GetObjectMeta.simps)
  with restart_prefix_patches [OF 2(1)] show ?case
    unfolding yieldToDrain_eq by (intro case_vc emits_intros case_sumI) auto
next
  case (4 pre)
  have "emits (restart_dispatch K cfg now ro (restart_state (RolloutWorkload ro)))
      (\<lambda>r l. patches_ok (restart_evidence K (RolloutWorkload ro) l) l)"
  proof (cases "restart_state (RolloutWorkload ro) = ''''")
    case True
    with restart_evidence_new show ?thesis by (simp add: restart_dispatch_def DrainStateNone_def del: GetObjectMeta.simps)
  next
    case False
    then show ?thesis by (rule restart_evidence_handlers)
  qed
  then show ?case
    by (rule emits_mono) (auto simp: restart_prefix_patches [OF 4(1)] elim!: patches_ok_mono intro: restart_evidence_mono)
qed (auto simp: restart_evidence_def intro!: abort_trace_patches simp del: GetObjectMeta.simps)

definition restart_calls_of ::
  "'s platform \<Rightarrow> Config \<Rightarrow> ('s, Time) state option \<Rightarrow> DrainableWorkload \<Rightarrow> api_call list \<Rightarrow> bool" where
  "restart_calls_of K cfg now wl l \<longleftrightarrow> (\<exists>ro r. wl = RolloutWorkload ro \<and> ran (restart_reconcileWorkload K cfg now ro) r l)"

abbreviation restart_watch :: "string list" where
  "restart_watch \<equiv> [AnnotationRestartSurgeState, AnnotationRestartSurgeStart]"

lemma restart_calls_patched:
  assumes "restart_calls_of K cfg now wl l" "PatchObject (Object wl') p a \<in> set l"
  shows "p = patch_of wl' \<and> restart_write wl wl' \<and> restart_evidence K wl l wl'"
proof -
  obtain ro r where ro: "wl = RolloutWorkload ro" "ran (restart_reconcileWorkload K cfg now ro) r l"
    using assms(1) by (auto simp: restart_calls_of_def)
  have "emits (restart_reconcileWorkload K cfg now ro) (\<lambda>r l. patches_ok (restart_write (RolloutWorkload ro)) l)"
    by (rule emits_mono [OF restart_ok_reconcileWorkload]) (simp add: restart_ok_def)
  from ran_patched [OF this ro(2) assms(2)] ran_patched(1) [OF restart_reconcile_evidence ro(2) assms(2)] ro(1)
  show ?thesis by blast
qed

interpretation restart_journal: journaled_surge AnnotationRestartSurgeState restart_watch "restart_calls_of K cfg now"
  "saw_two_ready K" "saw_restart_over K" restart_op "\<lambda>_. True" for K :: "'s platform" and cfg now
proof (unfold_locales, goal_cases)
  case (3 wl wl')
  then show ?case by (simp add: restart_op_def agree_get)
next
  case (5 wl l wl' p a)
  from restart_calls_patched [OF 5] show ?case by (auto simp: surge_write_def)
qed (auto dest!: restart_calls_patched simp: restart_evidence_def split: if_splits)

section \<open>No scale-down without the evidence\<close>

text \<open>
  C8. Over whole histories, whatever other actors (the restart controller included) do to the rest of the
  workload and whatever the cluster answers: a drain operation found in state ready has seen, in one of its
  own reconciles, a ready replacement on another node than the drained one; one found in state draining
  or done, that is, scaled down, has seen that and, in the same or a later reconcile, the drained node free of
  live pods, with the recorded autoscaler restored. The operation is the one on record: same node, same start.
\<close>

theorem drain_scale_down_is_evident:
  assumes "journaled AnnotationDrainState drain_watch (drain_calls K cfg) wl J"
  shows "(drain_state wl = DrainStateReady \<longrightarrow> shown (saw_replacement K) drain_op (drain_op wl) J) \<and>
     (drain_state wl \<in> {DrainStateDraining, DrainStateDone} \<longrightarrow>
        shown_in_order (saw_replacement K) (saw_eviction K) drain_op (drain_op wl) J)"
  using drain_journal.journaled_evident [OF assms] by (simp add: drain_journal.evident_def)

lemma demo_drain_calls: "drain_calls sim demo_config wl (demo_calls wl i)"
  unfolding drain_calls_def ran_def by blast

lemma demo_drain_journal:
  "\<exists>J. journaled AnnotationDrainState drain_watch (drain_calls sim demo_config) demo_draining J"
proof -
  note step = drain_journal.journaled_run [OF _ demo_drain_calls]
  have "journaled AnnotationDrainState drain_watch (drain_calls sim demo_config) (DeploymentWorkload demo_deployment) []"
    by (rule journaled.idle [OF demo_fresh])
  from step [OF step [OF step [OF this, of 0], of 1], of 2] show ?thesis
    unfolding demo_first demo_second demo_third by blast
qed

theorem drain_scale_down_is_evident_witness:
  "\<exists>J. journaled AnnotationDrainState drain_watch (drain_calls sim demo_config) demo_draining J \<and>
     shown_in_order (saw_replacement sim) (saw_eviction sim) drain_op (drain_op demo_draining) J"
  using demo_drain_journal drain_scale_down_is_evident [of sim demo_config demo_draining] demo_draining_reads(1) by blast

text \<open>
  C19. The same of a restart surge: ready needs a reconcile that saw two ready pods, draining and done that
  and then one that saw the restart completed, by its status or by the pods, with the autoscaler restored.
\<close>

theorem restart_scale_down_is_evident:
  assumes "journaled AnnotationRestartSurgeState restart_watch (restart_calls_of K cfg now) wl J"
  shows "(restart_state wl = DrainStateReady \<longrightarrow> shown (saw_two_ready K) restart_op (restart_op wl) J) \<and>
     (restart_state wl \<in> {DrainStateDraining, DrainStateDone} \<longrightarrow>
        shown_in_order (saw_two_ready K) (saw_restart_over K) restart_op (restart_op wl) J)"
  using restart_journal.journaled_evident [OF assms] by (simp add: restart_journal.evident_def)

lemma demo_restart_calls: "RolloutWorkload (rollout_in wl) = wl \<Longrightarrow> restart_calls_of sim demo_config None wl (restart_calls wl i)"
  unfolding restart_calls_of_def ran_def by metis

lemma demo_restart_journal:
  "\<exists>J. journaled AnnotationRestartSurgeState restart_watch (restart_calls_of sim demo_config None) restart_draining J"
proof -
  note step = restart_journal.journaled_run [OF _ demo_restart_calls]
  have "journaled AnnotationRestartSurgeState restart_watch (restart_calls_of sim demo_config None) (RolloutWorkload demo_rollout) []"
    by (rule journaled.idle [OF demo_rollout_fresh])
  then obtain J where "journaled AnnotationRestartSurgeState restart_watch (restart_calls_of sim demo_config None) restart_started J"
    using step [of "RolloutWorkload demo_rollout" _ 0] unfolding restart_first by auto
  then obtain J where "journaled AnnotationRestartSurgeState restart_watch (restart_calls_of sim demo_config None) restart_ready J"
    using step [of restart_started _ 1] restart_rollouts(1) unfolding restart_second by blast
  then show ?thesis
    using step [of restart_ready _ 2] restart_rollouts(2) unfolding restart_third by blast
qed

theorem restart_scale_down_is_evident_witness:
  "\<exists>J. journaled AnnotationRestartSurgeState restart_watch (restart_calls_of sim demo_config None) restart_draining J \<and>
     shown_in_order (saw_two_ready sim) (saw_restart_over sim) restart_op (restart_op restart_draining) J"
  using demo_restart_journal restart_scale_down_is_evident [of sim demo_config None restart_draining] restart_draining_reads(2) by blast

end
