(* ===== verification/Deadlines.thy ===== *)
theory Deadlines
  imports RestartBookkeeping Journal
begin

text \<open>
  How long an operation can last. A work queue calls a reconciler again no later than it asked to be
  called; a reconcile takes a bounded time, reads the clock while it runs, and its patches are accepted. The
  relation \<open>timed\<close> has the states a workload gets into that way, with the time and the next deadline. The
  locale \<open>timed_surge\<close> shows once that an operation is over in time, from what a single reconcile leaves
  behind: an operation that is not overdue, with the next call asked for. Both controllers interpret it.
\<close>

section \<open>Timed runs\<close>

text \<open>
  \<open>timed rec idle owned E wl t due\<close>: at time \<open>t\<close> the workload is \<open>wl\<close> and the next reconcile begins no later than
  \<open>due\<close>, where \<open>None\<close> means that none is asked for. Others may change the workload at any time but for its kind
  and the owned annotations.
\<close>

inductive timed ::
  "'s reconciler \<Rightarrow> (DrainableWorkload \<Rightarrow> bool) \<Rightarrow> string list \<Rightarrow> int \<Rightarrow> DrainableWorkload \<Rightarrow> Time \<Rightarrow> Time option \<Rightarrow> bool"
  for rec idle owned E where
  begun: "idle wl \<Longrightarrow> timed rec idle owned E wl t None"
| waited: "timed rec idle owned E wl t due \<Longrightarrow> t \<le> t' \<Longrightarrow> (\<And>d. due = Some d \<Longrightarrow> t' \<le> d) \<Longrightarrow>
    GetObjectKind wl' = GetObjectKind wl \<Longrightarrow>
    (\<And>k. k \<in> set owned \<Longrightarrow> anno_lookup (wl_annotations wl') k = anno_lookup (wl_annotations wl) k) \<Longrightarrow>
    timed rec idle owned E wl' t' due"
| reconciled: "timed rec idle owned E wl t due \<Longrightarrow> t \<le> t' \<Longrightarrow> t' \<le> t + E \<Longrightarrow> ran (rec wl) (Inr res) l \<Longrightarrow>
    (\<And>u. ReadClock u \<in> set l \<Longrightarrow> t \<le> u \<and> u \<le> t' \<and> rfc3339_range u) \<Longrightarrow>
    timed rec idle owned E (patched_last wl l) t'
      (if RequeueAfter res = 0 then None else Some (t' + sint (RequeueAfter res)))"

text \<open>A first reconcile at one instant, and the wait for the next.\<close>

lemma timed_first_round:
  assumes "idle wl" "r = fst (run_state (rec wl) w)" "l = calls_of (rec wl) w"
    "case r of Inl _ \<Rightarrow> False | Inr res \<Rightarrow> 0 < sint (RequeueAfter res)"
    "list_all (\<lambda>c. case c of ReadClock u \<Rightarrow> u = t | _ \<Rightarrow> True) l" "rfc3339_range t"
  shows "\<exists>t' due. t < t' \<and> timed rec idle owned 0 (patched_last wl l) t' due"
proof -
  obtain res where res: "r = Inr res" "0 < sint (RequeueAfter res)" using assms(4) by (auto split: sum.splits)
  let ?due = "t + sint (RequeueAfter res)"
  have "timed rec idle owned 0 wl t None" using assms(1) by (rule timed.begun)
  then have "timed rec idle owned 0 (patched_last wl l) t (if RequeueAfter res = 0 then None else Some ?due)"
  proof (rule timed.reconciled)
    show "ran (rec wl) (Inr res) l" unfolding ran_def res(1) [symmetric] using assms(2,3) by blast
    show "t \<le> u \<and> u \<le> t \<and> rfc3339_range u" if "ReadClock u \<in> set l" for u
      using that assms(5,6) by (auto simp: list_all_iff)
  qed simp_all
  moreover have "RequeueAfter res \<noteq> 0" using res(2) by auto
  ultimately have "timed rec idle owned 0 (patched_last wl l) t (Some ?due)" by simp
  then have "timed rec idle owned 0 (patched_last wl l) ?due (Some ?due)"
    by (rule timed.waited) (use res(2) in simp_all)
  with res(2) show ?thesis by (intro exI [of _ ?due]) auto
qed

locale timed_surge =
  fixes rec :: "'s reconciler"
    and idle fits live :: "DrainableWorkload \<Rightarrow> bool"
    and owned :: "string list"
    and start_of :: "DrainableWorkload \<Rightarrow> Time option"
    and sane :: bool
    and limit interval :: int
  assumes idle_fits: "idle wl \<Longrightarrow> fits wl \<and> \<not> live wl"
    and outside: "(\<And>k. k \<in> set owned \<Longrightarrow> anno_lookup (wl_annotations wl') k = anno_lookup (wl_annotations wl) k) \<Longrightarrow>
      live wl' = live wl \<and> start_of wl' = start_of wl"
    and fits_kind: "GetObjectKind wl' = GetObjectKind wl \<Longrightarrow> fits wl' = fits wl"
    and step: "sane \<Longrightarrow> fits wl \<Longrightarrow> (live wl \<Longrightarrow> start_of wl \<noteq> None) \<Longrightarrow>
      emits (rec wl) (\<lambda>r l. fits (patched_last wl l) \<and>
        (\<forall>res. r = Inr res \<longrightarrow> datable l \<longrightarrow> live (patched_last wl l) \<longrightarrow> sint (RequeueAfter res) = interval \<and>
          (\<exists>start u. start_of (patched_last wl l) = Some start \<and> ReadClock u \<in> set l \<and> u - start \<le> limit)))"
    and interval_pos: "sane \<Longrightarrow> 0 < interval"
begin

text \<open>While an operation is live the next reconcile is due, at most the limit and one round later than its start.\<close>

definition in_time :: "int \<Rightarrow> DrainableWorkload \<Rightarrow> Time \<Rightarrow> Time option \<Rightarrow> bool" where
  "in_time E wl t due \<longleftrightarrow> fits wl \<and> (live wl \<longrightarrow> (\<exists>start d. start_of wl = Some start \<and> due = Some d \<and> t \<le> d \<and>
     d \<le> start + limit + E + interval))"

lemma timed_in_time:
  assumes sane
  shows "timed rec idle owned E wl t due \<Longrightarrow> in_time E wl t due"
proof (induction rule: timed.induct)
  case (begun wl t)
  then show ?case by (simp add: in_time_def idle_fits)
next
  case (waited wl t due t' wl')
  then show ?case using outside [OF waited.hyps(5)] fits_kind [OF waited.hyps(4)] by (auto simp: in_time_def)
next
  case (reconciled wl t due t' res l)
  let ?wl = "patched_last wl l"
  from reconciled.IH have "fits wl" "live wl \<Longrightarrow> start_of wl \<noteq> None" by (auto simp: in_time_def)
  from ranD [OF step [OF assms this] reconciled.hyps(4)] have "fits ?wl" and left: "live ?wl \<Longrightarrow> datable l \<Longrightarrow>
      sint (RequeueAfter res) = interval \<and> (\<exists>start u. start_of ?wl = Some start \<and> ReadClock u \<in> set l \<and> u - start \<le> limit)"
    by auto
  have "\<exists>start d. start_of ?wl = Some start \<and>
      (if RequeueAfter res = 0 then None else Some (t' + sint (RequeueAfter res))) = Some d \<and> t' \<le> d \<and>
      d \<le> start + limit + E + interval" if "live ?wl"
  proof -
    from reconciled.hyps(5) have "datable l" by blast
    with left [OF that] obtain start u where start: "sint (RequeueAfter res) = interval" "start_of ?wl = Some start"
      "ReadClock u \<in> set l" "u - start \<le> limit" by blast
    moreover from start(3) have "t \<le> u" using reconciled.hyps(5) by blast
    moreover have "RequeueAfter res \<noteq> 0" using start(1) interval_pos [OF assms] by auto
    ultimately show ?thesis using reconciled.hyps(3) interval_pos [OF assms] by auto
  qed
  with \<open>fits ?wl\<close> show ?case by (simp add: in_time_def)
qed

lemma timed_bound:
  assumes sane "timed rec idle owned E wl t due" "live wl"
  shows "\<exists>start. start_of wl = Some start \<and> t - start \<le> limit + E + interval"
  using timed_in_time [OF assms(1,2)] assms(3) by (auto simp: in_time_def)

end

section \<open>What a reconcile leaves of an operation\<close>

text \<open>An operation goes on under the same date, with the next call asked for, or it is over.\<close>

definition goes_on ::
  "string \<Rightarrow> string list \<Rightarrow> Config \<Rightarrow> DrainableWorkload \<Rightarrow> error + Result \<Rightarrow> api_call list \<Rightarrow> bool" where
  "goes_on key kept cfg wl r l \<longleftrightarrow> (\<forall>res. r = Inr res \<longrightarrow>
     anno_get (wl_annotations (patched_last wl l)) key = '''' \<or>
     RequeueAfter res = RequeueInterval cfg \<and>
     (\<forall>k \<in> set kept. anno_lookup (wl_annotations (patched_last wl l)) k = anno_lookup (wl_annotations wl) k))"

lemma goes_on_ended: "anno_get (wl_annotations (patched_last wl l)) key = '''' \<Longrightarrow> goes_on key kept cfg wl r l"
  by (simp add: goes_on_def)

lemma to_state_lookup: "anno_lookup (wl_annotations (to_state key s wl)) k = (if k = key then Some s else anno_lookup (wl_annotations wl) k)"
  by (simp add: to_state_def anno_lookup_make)

lemmas goes_on_simps = goes_on_def patched_last_def api_result_Inl_iff to_state_lookup requeue_after_def

abbreviation drain_dates :: "string list" where
  "drain_dates \<equiv> [AnnotationDrainNode, AnnotationDrainStart]"

lemma drain_handlers_go_on:
  assumes "drain_state wl \<noteq> ''''"
  shows "emits (drain_dispatch K cfg wl nodeName (drain_state wl)) (goes_on AnnotationDrainState drain_dates cfg wl)"
proof -
  have pending: "emits (handleScaleUp K cfg wl nodeName) (goes_on AnnotationDrainState drain_dates cfg wl)"
    unfolding handleScaleUp_def
    by (intro case_vc emits_intros case_sumI)
      (auto simp: goes_on_simps annotate_to_state [OF assms] annotate_to_state_original)
  have up: "emits (handleWaitReady K cfg wl nodeName) (goes_on AnnotationDrainState drain_dates cfg wl)"
    unfolding handleWaitReady_def waitReady_check_def
    by (intro case_vc emits_intros case_sumI)
      (auto simp: goes_on_simps annotate_to_state [OF assms])
  have ready: "emits (handleWaitEviction K cfg wl nodeName) (goes_on AnnotationDrainState drain_dates cfg wl)"
    unfolding handleWaitEviction_def
    by (intro case_vc emits_intros case_sumI)
      (auto simp: goes_on_simps annotate_to_state_original)
  have draining: "emits (handleScaleDown K cfg wl) (goes_on AnnotationDrainState drain_dates cfg wl)"
    unfolding handleScaleDown_def
    by (intro case_vc emits_intros case_sumI)
      (auto simp: goes_on_simps annotate_to_state_original)
  have finished: "emits (handleCleanup K wl) (goes_on AnnotationDrainState drain_dates cfg wl)"
    unfolding handleCleanup_def
    by (intro case_vc emits_intros case_sumI) (auto simp: goes_on_simps clearDrainAnnotations_def)
  from assms show ?thesis
    by (auto simp: drain_dispatch_def DrainStateNone_def pending up ready draining finished goes_on_simps
        intro!: emits_abortWorkload)
qed

section \<open>The drain controller\<close>

definition drain_start_of :: "string \<Rightarrow> DrainableWorkload \<Rightarrow> Time option" where
  "drain_start_of n wl = (if drain_node wl = n then parseDrainStart (wl_annotations wl) else None)"

lemma parseDrainStart_cong:
  "anno_lookup a AnnotationDrainStart = anno_lookup b AnnotationDrainStart \<Longrightarrow> parseDrainStart a = parseDrainStart b"
  by (simp add: parseDrainStart_def parseRFC3339Annotation_def anno_get_def)

lemma drain_start_of_cong:
  "(\<And>k. k \<in> set drain_dates \<Longrightarrow> anno_lookup (wl_annotations wl') k = anno_lookup (wl_annotations wl) k) \<Longrightarrow>
     drain_start_of n wl' = drain_start_of n wl"
  using parseDrainStart_cong [of "wl_annotations wl'" "wl_annotations wl"] by (simp add: drain_start_of_def anno_get_def)

lemma parseDrainStart_record:
  "rfc3339_range u \<Longrightarrow> parseDrainStart (Some (m(AnnotationDrainStart \<mapsto> time_Format_RFC3339 u))) = Some (u div nanos * nanos)"
  unfolding parseDrainStart_def by (rule parseRFC3339Annotation_Format) simp_all

lemma drain_start_of_simps [simp]:
  "drain_start_of n (SetReplicas k wl) = drain_start_of n wl"
  "drain_start_of n (SetAnnotations (Some m) wl) =
     (if anno_get (Some m) AnnotationDrainNode = n then parseDrainStart (Some m) else None)"
  by (simp_all add: drain_start_of_def)

text \<open>What a successful reconcile leaves is asked for again, and dated no more than \<open>limit\<close> before now.\<close>

definition left_in_time ::
  "(DrainableWorkload \<Rightarrow> bool) \<Rightarrow> (DrainableWorkload \<Rightarrow> Time option) \<Rightarrow> int \<Rightarrow> Config \<Rightarrow> DrainableWorkload \<Rightarrow>
   error + Result \<Rightarrow> api_call list \<Rightarrow> bool" where
  "left_in_time live start_of limit cfg wl r l \<longleftrightarrow>
     (\<forall>res. r = Inr res \<longrightarrow> datable l \<longrightarrow> live (patched_last wl l) \<longrightarrow>
        sint (RequeueAfter res) = sint (RequeueInterval cfg) \<and>
        (\<exists>start u. start_of (patched_last wl l) = Some start \<and> ReadClock u \<in> set l \<and> u - start \<le> limit))"

lemma truncated_start: "u - u div nanos * nanos \<le> max T nanos"
  using pos_mod_bound [of nanos u] by (simp add: minus_div_mult_eq_mod)

lemma drain_start_in_time:
  assumes "drain_state wl = ''''"
  shows "emits (handlePending K cfg wl n)
    (left_in_time (\<lambda>wl. drain_state wl \<noteq> '''') (drain_start_of n) (max T nanos) cfg wl)"
  unfolding handlePending_def
  by (intro case_vc emits_intros case_sumI)
    (auto simp: assms left_in_time_def patched_last_def api_result_Inl_iff requeue_after_def
      parseDrainStart_record intro!: exI truncated_start)

lemma left_in_time_prefix:
  "left_in_time live start_of limit cfg wl r l \<Longrightarrow> patched_objects pre = [] \<Longrightarrow>
     left_in_time live start_of limit cfg wl r (pre @ l)"
  unfolding left_in_time_def patched_last_def by fastforce

lemmas left_in_time_Cons = left_in_time_prefix [where pre = "[c]" for c, unfolded append_Cons append_Nil]

lemma left_in_time_goes_on:
  assumes "goes_on key kept cfg wl r l"
    and "\<And>wl'. (\<And>k. k \<in> set kept \<Longrightarrow> anno_lookup (wl_annotations wl') k = anno_lookup (wl_annotations wl) k) \<Longrightarrow>
      start_of wl' = Some start"
    and "\<And>wl'. anno_get (wl_annotations wl') key = '''' \<Longrightarrow> \<not> live wl'"
    and "patched_objects pre = []" "ReadClock u \<in> set pre" "u - start \<le> limit"
  shows "left_in_time live start_of limit cfg wl r (pre @ l)"
proof -
  have "patched_last wl (pre @ l) = patched_last wl l" using assms(4) by (simp add: patched_last_def)
  moreover have "sint (RequeueAfter res) = sint (RequeueInterval cfg) \<and>
      (\<exists>start u. start_of (patched_last wl l) = Some start \<and> ReadClock u \<in> set (pre @ l) \<and> u - start \<le> limit)"
    if "r = Inr res" "live (patched_last wl l)" for res
    using assms(1) that assms(2) [of "patched_last wl l"] assms(3,5,6) unfolding goes_on_def by auto
  ultimately show ?thesis by (simp add: left_in_time_def)
qed

lemma drain_step_in_time:
  assumes "0 < sint (ReadinessTimeout cfg)"
    and "drain_state wl \<noteq> '''' \<Longrightarrow> drain_start_of n wl \<noteq> None"
  shows "emits (reconcileWorkload K cfg wl n)
    (left_in_time (\<lambda>wl. drain_state wl \<noteq> '''') (drain_start_of n) (max (sint (ReadinessTimeout cfg)) nanos) cfg wl)"
    (is "emits _ ?Q")
proof (rule emits_reconcileWorkload)
  fix now ev r l assume "abort_trace drain_aborted wl r l"
  then show "?Q r (ReadClock now # RecordEvent (Object wl) ev # l)"
    by (simp add: left_in_time_def patched_last_def)
next
  fix l :: "api_call list" assume "writes l = []" "drain_state wl = '''' \<or> drain_node wl \<notin> {'''', n}"
  then show "?Q (Inr ctrl_Result) l"
    using assms(2) by (cases "drain_state wl = ''''") (auto simp: left_in_time_def drain_start_of_def)
next
  fix pre assume pre: "reconcile_prefix cfg n wl pre"
  have finish: "emits (drain_dispatch K cfg wl n (drain_state wl)) (\<lambda>r l. ?Q r (pre @ l))"
    if "drain_state wl = DrainStateDone" "patched_objects pre = []"
    using that unfolding drain_dispatch_def handleCleanup_def DrainStateNone_def
    by (simp, intro case_vc emits_intros case_sumI)
      (auto simp: left_in_time_def patched_last_def api_result_Inl_iff clearDrainAnnotations_def)
  show "emits (drain_dispatch K cfg wl n (drain_state wl)) (\<lambda>r l. ?Q r (pre @ l))"
    using pre
  proof cases
    case (new hpas)
    then have "emits (drain_dispatch K cfg wl n (drain_state wl)) ?Q"
      using drain_start_in_time by (simp add: drain_dispatch_def DrainStateNone_def)
    then show ?thesis by (rule emits_mono) (rule left_in_time_prefix, use new in simp_all)
  next
    case finished
    then show ?thesis by (intro finish) simp_all
  next
    case undated
    then show ?thesis using assms(2) by (simp add: drain_start_of_def split: if_splits)
  next
    case (in_time now)
    then obtain start where start: "drain_start_of n wl = Some start" using assms(2) by blast
    show ?thesis
    proof (cases "drain_state wl = DrainStateDone")
      case True
      with in_time(1) show ?thesis by (intro finish) simp_all
    next
      case active: False
      show ?thesis
      proof (rule emits_mono [OF drain_handlers_go_on [OF in_time(2)]], rule left_in_time_goes_on)
        show "drain_start_of n wl' = Some start"
          if "\<And>k. k \<in> set drain_dates \<Longrightarrow> anno_lookup (wl_annotations wl') k = anno_lookup (wl_annotations wl) k" for wl'
          using drain_start_of_cong [OF that] start by simp
        show "now - start \<le> max (sint (ReadinessTimeout cfg)) nanos"
          using in_time(2,3) start active overrun_iff [OF assms(1), of now start] timeout_limit_le [OF assms(1)]
          by (auto simp: drain_expired_def drain_start_of_def simp del: word_sless_iff_sint split: if_splits)
      qed (use in_time in simp_all)
    qed
  qed
qed

interpretation drain_deadline: timed_surge "\<lambda>wl. reconcileWorkload K cfg wl n" "\<lambda>wl. drain_state wl = ''''" "\<lambda>_. True"
  "\<lambda>wl. drain_state wl \<noteq> ''''" drainAnnotationKeys "drain_start_of n" "Validate cfg = None"
  "max (sint (ReadinessTimeout cfg)) nanos" "sint (RequeueInterval cfg)" for K :: "'s platform" and cfg n
proof unfold_locales
  fix wl assume "Validate cfg = None" "drain_state wl \<noteq> '''' \<Longrightarrow> drain_start_of n wl \<noteq> None"
  then have "emits (reconcileWorkload K cfg wl n)
      (left_in_time (\<lambda>wl. drain_state wl \<noteq> '''') (drain_start_of n) (max (sint (ReadinessTimeout cfg)) nanos) cfg wl)"
    by (intro drain_step_in_time) (auto simp: Validate_None_iff)
  then show "emits (reconcileWorkload K cfg wl n) (\<lambda>r l. True \<and> (\<forall>res. r = Inr res \<longrightarrow> datable l \<longrightarrow>
      drain_state (patched_last wl l) \<noteq> '''' \<longrightarrow> sint (RequeueAfter res) = sint (RequeueInterval cfg) \<and>
      (\<exists>start u. drain_start_of n (patched_last wl l) = Some start \<and> ReadClock u \<in> set l \<and>
         u - start \<le> max (sint (ReadinessTimeout cfg)) nanos)))"
    by (rule emits_mono) (simp add: left_in_time_def)
next
  fix wl wl' assume "\<And>k. k \<in> set drainAnnotationKeys \<Longrightarrow> anno_lookup (wl_annotations wl') k = anno_lookup (wl_annotations wl) k"
  moreover from this have "drain_start_of n wl' = drain_start_of n wl" by (intro drain_start_of_cong) auto
  ultimately show "(drain_state wl' \<noteq> '''') = (drain_state wl \<noteq> '''') \<and> drain_start_of n wl' = drain_start_of n wl"
    by (simp add: anno_get_def)
qed (simp_all add: Validate_None_iff)

text \<open>
  C13. A drain operation does not outlast its timeout. Let a node's reconciles of a workload that begins
  with no operation succeed, each within the time \<open>E\<close> and begun no later than the one before asked for, and
  let others change what they like but the owned annotations. At every moment, an operation under way
  is recorded for this node with a readable start, and that start is no further back than the
  readiness timeout (or a second, if that is longer), the time of one reconcile and one requeue interval.
\<close>

theorem drain_ends_in_time:
  assumes "Validate cfg = None"
    and "timed (\<lambda>wl. reconcileWorkload K cfg wl n) (\<lambda>wl. drain_state wl = '''') drainAnnotationKeys E wl t due"
    and "drain_state wl \<noteq> ''''"
  shows "drain_node wl = n \<and> (\<exists>start. parseDrainStart (wl_annotations wl) = Some start \<and>
     t - start \<le> max (sint (ReadinessTimeout cfg)) nanos + E + sint (RequeueInterval cfg))"
  using drain_deadline.timed_bound [of cfg K n E wl t due] assms by (auto simp: drain_start_of_def split: if_splits)

lemma demo_start_answer:
  "case fst (run_state (reconcileWorkload sim demo_config (DeploymentWorkload demo_deployment) ''n1'') (demo_drain ! 0)) of
     Inl _ \<Rightarrow> False | Inr res \<Rightarrow> 0 < sint (RequeueAfter res)"
  by code_simp

lemma demo_start_clock:
  "list_all (\<lambda>c. case c of ReadClock u \<Rightarrow> u = t0 | _ \<Rightarrow> True) (demo_calls (DeploymentWorkload demo_deployment) 0)"
  by code_simp

theorem drain_ends_in_time_witness:
  "\<exists>t start. t0 < t \<and> parseDrainStart (wl_annotations demo_started) = Some start \<and> drain_state demo_started = DrainStateScaledUp \<and>
     t - start \<le> max (sint (ReadinessTimeout demo_config)) nanos + sint (RequeueInterval demo_config)"
proof -
  obtain t due where run: "t0 < t" "timed (\<lambda>wl. reconcileWorkload sim demo_config wl ''n1'') (\<lambda>wl. drain_state wl = '''')
      drainAnnotationKeys 0 demo_started t due"
    using timed_first_round [where rec = "\<lambda>wl. reconcileWorkload sim demo_config wl ''n1''" and idle = "\<lambda>wl. drain_state wl = ''''",
        OF demo_fresh refl refl demo_start_answer demo_start_clock demo_t0(1)]
    unfolding demo_first by blast
  have state: "drain_state demo_started = DrainStateScaledUp" by code_simp
  then have "drain_state demo_started \<noteq> ''''" by simp
  from drain_ends_in_time [OF demo_config_valid(1) run(2) this] run(1) state show ?thesis by auto
qed

section \<open>The restart controller\<close>

abbreviation restart_start_of :: "DrainableWorkload \<Rightarrow> Time option" where
  "restart_start_of wl \<equiv> parseRestartSurgeStart (wl_annotations wl)"

lemma restart_start_of_cong:
  "anno_lookup (wl_annotations wl') AnnotationRestartSurgeStart = anno_lookup (wl_annotations wl) AnnotationRestartSurgeStart \<Longrightarrow>
     restart_start_of wl' = restart_start_of wl"
  by (simp add: parseRestartSurgeStart_def parseRFC3339Annotation_def anno_get_def)

lemma parseRestartSurgeStart_record:
  "rfc3339_range u \<Longrightarrow>
     parseRestartSurgeStart (Some (m(AnnotationRestartSurgeStart \<mapsto> time_Format_RFC3339 u))) = Some (u div nanos * nanos)"
  unfolding parseRestartSurgeStart_def by (rule parseRFC3339Annotation_Format) simp_all

lemma restart_surge_in_time:
  "emits (restart_surge K cfg now ro) (left_in_time restart_active restart_start_of (max T nanos) cfg (RolloutWorkload ro))"
  if "restart_state (RolloutWorkload ro) = ''''"
  unfolding restart_surge_def
  by (intro case_vc emits_intros case_sumI)
    (auto simp: that left_in_time_def patched_last_def api_result_Inl_iff requeue_after_def
      parseRestartSurgeStart_record intro!: exI truncated_start
      simp del: GetObjectMeta.simps GetReplicas.simps SetReplicas.simps SetAnnotations.simps Object.simps)

lemma restart_start_in_time:
  assumes "restart_state (RolloutWorkload ro) = ''''"
  shows "emits (handleRestartPending K cfg now ro)
    (left_in_time restart_active restart_start_of (max T nanos) cfg (RolloutWorkload ro))"
proof -
  have idle: "left_in_time restart_active restart_start_of (max T nanos) cfg (RolloutWorkload ro) r []" for r
    using assms by (simp add: left_in_time_def patched_last_def)
  show ?thesis
    unfolding handleRestartPending_def Let_def
    by (intro case_vc emits_if emits_checked emits_bind emits_listMatchingPods emits_timeNow emits_return emits_Eventf
        emits_FindMatchingPDB case_sumI emits_mono [OF restart_surge_in_time [OF assms]])
      (auto intro!: left_in_time_Cons idle)
qed

lemma restart_handlers_go_on:
  assumes "restart_active (RolloutWorkload ro)"
  shows "emits (restart_dispatch K cfg now ro (restart_state (RolloutWorkload ro)))
    (goes_on AnnotationRestartSurgeState [AnnotationRestartSurgeStart] cfg (RolloutWorkload ro))"
proof -
  let ?wl = "RolloutWorkload ro" and ?on = "goes_on AnnotationRestartSurgeState [AnnotationRestartSurgeStart] cfg (RolloutWorkload ro)"
  from assms have state: "restart_state ?wl \<noteq> ''''" by blast
  have pending: "emits (handleRestartScaleUp K cfg ?wl) ?on"
    unfolding handleRestartScaleUp_def
    by (intro case_vc emits_intros case_sumI)
      (auto simp: goes_on_simps simp del: GetObjectMeta.simps SetReplicas.simps Object.simps)
  have up: "emits (handleRestartWaitReady K cfg ?wl) ?on"
    unfolding handleRestartWaitReady_def restartWaitReady_check_def
    by (intro case_vc emits_intros case_sumI)
      (auto simp: goes_on_simps annotate_to_state [OF state] simp del: GetObjectMeta.simps SetReplicas.simps Object.simps)
  have ready: "emits (handleRestartWaitForArgo K cfg ro) ?on"
    unfolding handleRestartWaitForArgo_def restart_finish_def restart_restoreHPA_eq Let_def
    by (intro case_vc emits_intros case_sumI)
      (auto simp: goes_on_simps annotate_to_state_original simp del: GetObjectMeta.simps SetReplicas.simps Object.simps)
  have draining: "emits (handleRestartScaleDown K cfg ?wl) ?on"
    unfolding handleRestartScaleDown_def
    by (intro case_vc emits_intros case_sumI)
      (auto simp: goes_on_simps annotate_to_state_original simp del: GetObjectMeta.simps SetReplicas.simps Object.simps)
  from assms show ?thesis
    by (auto simp: restart_dispatch_def Let_def DrainStateNone_def pending up ready draining goes_on_simps
        simp del: GetObjectMeta.simps intro!: emits_abortRestartSurge)
qed

lemma restart_step_in_time:
  assumes "0 < sint (RestartSurgeTimeout cfg)"
    and "restart_active (RolloutWorkload ro) \<Longrightarrow> restart_start_of (RolloutWorkload ro) \<noteq> None"
  shows "emits (restart_reconcileWorkload K cfg now ro)
    (left_in_time restart_active restart_start_of (max (sint (RestartSurgeTimeout cfg)) nanos) cfg (RolloutWorkload ro))"
    (is "emits _ ?Q")
proof (rule emits_restart_reconcileWorkload)
  let ?wl = "RolloutWorkload ro"
  fix t ev r l assume "abort_trace restart_aborted ?wl r l"
  then show "?Q r (ReadClock t # RecordEvent (Object ?wl) ev # l)"
    by (simp add: left_in_time_def patched_last_def)
next
  let ?wl = "RolloutWorkload ro"
  fix pre assume pre: "restart_prefix cfg ?wl pre"
  then have quiet: "patched_objects pre = []" by cases simp_all
  show "emits (yieldToDrain K ?wl) (\<lambda>r l. ?Q r (pre @ l))"
    unfolding yieldToDrain_eq
    by (intro case_vc emits_intros case_sumI)
      (auto simp: quiet left_in_time_def patched_last_def api_result_Inl_iff yielded_lookup anno_get_def
        simp del: GetObjectMeta.simps Object.simps)
  show "emits (restart_dispatch K cfg now ro (restart_state ?wl)) (\<lambda>r l. ?Q r (pre @ l))"
  proof (cases "restart_active ?wl")
    case False
    have finish: "emits (handleRestartCleanup K ?wl) ?Q"
      unfolding handleRestartCleanup_def
      by (intro case_vc emits_intros case_sumI)
        (auto simp: left_in_time_def patched_last_def api_result_Inl_iff clearRestartSurgeAnnotations_def
          simp del: GetObjectMeta.simps SetAnnotations.simps Object.simps)
    from False have "emits (restart_dispatch K cfg now ro (restart_state ?wl)) ?Q"
      using finish restart_start_in_time [of ro] by (auto simp: restart_dispatch_def DrainStateNone_def)
    then show ?thesis by (rule emits_mono) (rule left_in_time_prefix [OF _ quiet])
  next
    case True
    with assms(2) obtain start where start: "restart_start_of ?wl = Some start" by blast
    with pre True obtain t where pre_t: "pre = [ReadClock t]" "\<not> restart_expired cfg t ?wl"
      by (auto elim: restart_prefix.cases)
    show ?thesis
    proof (rule emits_mono [OF restart_handlers_go_on [OF True]], rule left_in_time_goes_on)
      show "restart_start_of wl' = Some start"
        if "\<And>k. k \<in> set [AnnotationRestartSurgeStart] \<Longrightarrow> anno_lookup (wl_annotations wl') k = anno_lookup (wl_annotations ?wl) k" for wl'
        using restart_start_of_cong [OF that] start by simp
      show "t - start \<le> max (sint (RestartSurgeTimeout cfg)) nanos"
        using pre_t(2) start True overrun_iff [OF assms(1), of t start] timeout_limit_le [OF assms(1)]
        by (auto simp: restart_expired_def simp del: word_sless_iff_sint)
    qed (use quiet pre_t in \<open>auto simp del: GetObjectMeta.simps\<close>)
  qed
qed (simp add: left_in_time_def)

lemma patches_ok_last: "patches_ok P l \<Longrightarrow> P wl \<Longrightarrow> P (patched_last wl l)"
proof -
  have "list_all (\<lambda>obj. P (workload_of obj)) (patched_objects l)" if "patches_ok P l"
    using that by (induction l rule: patched_objects.induct) (auto simp: patch_ok_def)
  then have "patches_ok P l \<Longrightarrow> patched_objects l \<noteq> [] \<Longrightarrow> P (workload_of (last (patched_objects l)))"
    using last_in_set by (auto simp: list_all_iff)
  then show "patches_ok P l \<Longrightarrow> P wl \<Longrightarrow> P (patched_last wl l)"
    by (cases "patched_objects l") (simp_all add: patched_last_def)
qed

lemma restart_keeps_kind:
  "emits (restart_reconcileWorkload K cfg now ro) (\<lambda>r l. GetObjectKind (patched_last (RolloutWorkload ro) l) = ''Rollout'')"
proof (rule emits_mono [OF restart_ok_reconcileWorkload])
  fix r l assume "restart_ok (RolloutWorkload ro) r l"
  then have "patches_ok (\<lambda>wl. GetObjectKind wl = ''Rollout'') l"
    unfolding restart_ok_def
    by (elim conjE patches_ok_mono) (simp add: surge_write_def same_identity_def ro_GetObjectKind_def)
  then show "GetObjectKind (patched_last (RolloutWorkload ro) l) = ''Rollout''"
    by (rule patches_ok_last) (simp add: ro_GetObjectKind_def)
qed

interpretation restart_deadline: timed_surge "restart_rec K cfg now" "\<lambda>wl. GetObjectKind wl = ''Rollout'' \<and> restart_state wl = ''''"
  "\<lambda>wl. GetObjectKind wl = ''Rollout''" restart_active restartSurgeFullKeys restart_start_of
  "RestartSurgeEnabled cfg \<and> Validate cfg = None" "max (sint (RestartSurgeTimeout cfg)) nanos"
  "sint (RequeueInterval cfg)" for K :: "'s platform" and cfg now
proof unfold_locales
  fix wl assume sane: "RestartSurgeEnabled cfg \<and> Validate cfg = None"
    and "GetObjectKind wl = ''Rollout''" and dated: "restart_active wl \<Longrightarrow> restart_start_of wl \<noteq> None"
  then obtain ro where wl: "wl = RolloutWorkload ro" by (cases wl) (auto simp: dep_GetObjectKind_def)
  from sane dated have "emits (restart_rec K cfg now wl)
      (left_in_time restart_active restart_start_of (max (sint (RestartSurgeTimeout cfg)) nanos) cfg wl)"
    unfolding wl rollout_in.simps by (intro restart_step_in_time) (auto simp: Validate_None_iff)
  moreover have "emits (restart_rec K cfg now wl) (\<lambda>r l. GetObjectKind (patched_last wl l) = ''Rollout'')"
    unfolding wl rollout_in.simps by (rule restart_keeps_kind)
  ultimately show "emits (restart_rec K cfg now wl) (\<lambda>r l. GetObjectKind (patched_last wl l) = ''Rollout'' \<and>
      (\<forall>res. r = Inr res \<longrightarrow> datable l \<longrightarrow> restart_active (patched_last wl l) \<longrightarrow>
        sint (RequeueAfter res) = sint (RequeueInterval cfg) \<and>
        (\<exists>start u. restart_start_of (patched_last wl l) = Some start \<and> ReadClock u \<in> set l \<and>
           u - start \<le> max (sint (RestartSurgeTimeout cfg)) nanos)))"
    by (rule emits_mono [OF emits_conj]) (simp add: left_in_time_def)
next
  fix wl wl' assume "\<And>k. k \<in> set restartSurgeFullKeys \<Longrightarrow> anno_lookup (wl_annotations wl') k = anno_lookup (wl_annotations wl) k"
  moreover from this have "restart_start_of wl' = restart_start_of wl" by (intro restart_start_of_cong) simp
  ultimately show "restart_active wl' = restart_active wl \<and> restart_start_of wl' = restart_start_of wl"
    by (simp add: anno_get_def)
qed (simp_all add: Validate_None_iff)

text \<open>
  C14. The same of a restart surge: while it is active, its start is no further back than its timeout (or
  a second), the time of one reconcile and one requeue interval.
\<close>

theorem restart_ends_in_time:
  assumes "Validate cfg = None" "RestartSurgeEnabled cfg"
    and "timed (restart_rec K cfg now) (\<lambda>wl. GetObjectKind wl = ''Rollout'' \<and> restart_state wl = '''') restartSurgeFullKeys E wl t due"
    and "restart_active wl"
  shows "\<exists>start. parseRestartSurgeStart (wl_annotations wl) = Some start \<and>
     t - start \<le> max (sint (RestartSurgeTimeout cfg)) nanos + E + sint (RequeueInterval cfg)"
  using restart_deadline.timed_bound [of cfg K now E wl t due] assms by simp

lemma restart_start_answer:
  "case fst (run_state (restart_rec sim demo_config None (RolloutWorkload demo_rollout)) (demo_restart ! 0)) of
     Inl _ \<Rightarrow> False | Inr res \<Rightarrow> 0 < sint (RequeueAfter res)"
  by code_simp

lemma restart_start_clock:
  "list_all (\<lambda>c. case c of ReadClock u \<Rightarrow> u = t0 | _ \<Rightarrow> True) (restart_calls (RolloutWorkload demo_rollout) 0)"
  by code_simp

theorem restart_ends_in_time_witness:
  "\<exists>t start. t0 < t \<and> parseRestartSurgeStart (wl_annotations restart_started) = Some start \<and> restart_active restart_started \<and>
     t - start \<le> max (sint (RestartSurgeTimeout demo_config)) nanos + sint (RequeueInterval demo_config)"
proof -
  have idle: "GetObjectKind (RolloutWorkload demo_rollout) = ''Rollout'' \<and> restart_state (RolloutWorkload demo_rollout) = ''''"
    using demo_rollout_fresh by (simp add: ro_GetObjectKind_def)
  obtain t due where run: "t0 < t" "timed (restart_rec sim demo_config None)
      (\<lambda>wl. GetObjectKind wl = ''Rollout'' \<and> restart_state wl = '''') restartSurgeFullKeys 0 restart_started t due"
    using timed_first_round [where rec = "restart_rec sim demo_config None" and idle = "\<lambda>wl. GetObjectKind wl = ''Rollout'' \<and> restart_state wl = ''''",
        OF idle refl refl restart_start_answer restart_start_clock demo_t0(1)]
    unfolding restart_first by blast
  have state: "restart_active restart_started" unfolding restart_started_reads by simp
  from restart_ends_in_time [OF demo_config_valid run(2) this] run(1) state show ?thesis by auto
qed

end
