(* ===== verification/HistoryProperties.thy ===== *)
theory HistoryProperties
  imports DrainProperties
begin

text \<open>
  What holds of every workload of a cluster in which the process runs, over the histories of
  \<open>JointHistory\<close>: with the record kept, an abort at any time restores one replica; without, the replica
  count stays within bounds all the same. A chain of real runs on the cluster of \<open>Scenario\<close> gets a Rollout into
  a restart surge and a drain at once, and the recovery then takes the record from the drain.
\<close>

section \<open>A chain of runs\<close>

text \<open>Objects that carry the same owned annotations, and what a run reads and writes, by evaluation.\<close>

definition same_owned :: "DrainableWorkload \<Rightarrow> annotations option \<Rightarrow> bool" where
  "same_owned wl a \<longleftrightarrow> list_all (\<lambda>k. anno_lookup a k = anno_lookup (wl_annotations wl) k) drainAnnotationKeys"

fun reads_like :: "DrainableWorkload \<Rightarrow> api_call \<Rightarrow> bool" where
  "reads_like wl (GetRollout _ _ (Inr ro)) = same_owned wl (Annotations (ro_ObjectMeta ro))"
| "reads_like wl (GetDeployment _ _ (Inr dep)) = same_owned wl (Annotations (dep_ObjectMeta dep))"
| "reads_like wl (ListRolloutsByDrainNode _ (Inr ros)) = list_all (\<lambda>ro. same_owned wl (Annotations (ro_ObjectMeta ro))) ros"
| "reads_like wl (ListDeploymentsByDrainNode _ (Inr deps)) = list_all (\<lambda>dep. same_owned wl (Annotations (dep_ObjectMeta dep))) deps"
| "reads_like wl (ListRollouts (Inr ros)) = list_all (\<lambda>ro. same_owned wl (Annotations (ro_ObjectMeta ro))) ros"
| "reads_like wl (ListDeployments (Inr deps)) = list_all (\<lambda>dep. same_owned wl (Annotations (dep_ObjectMeta dep))) deps"
| "reads_like wl _ = True"

definition writes_like :: "DrainableWorkload \<Rightarrow> api_call \<Rightarrow> bool" where
  "writes_like wl c = (case c of PatchObject obj _ _ \<Rightarrow> same_owned wl (Annotations (object_meta obj)) | _ \<Rightarrow> False)"

lemma same_ownedD: "same_owned wl (wl_annotations wl') \<Longrightarrow> k \<in> set drainAnnotationKeys \<Longrightarrow>
    anno_lookup (wl_annotations wl') k = anno_lookup (wl_annotations wl) k"
  unfolding same_owned_def list_all_iff by blast

lemma reads_like: "reads_like wl c \<Longrightarrow> wl' \<in> read_by c \<Longrightarrow> same_owned wl (wl_annotations wl')"
  by (cases "(wl, c)" rule: reads_like.cases) (auto simp: list_all_iff)

lemma reads_like_in: "list_all (reads_like wl) l \<Longrightarrow> wl' \<in> read_in l \<Longrightarrow> same_owned wl (wl_annotations wl')"
  by (auto simp: list_all_iff read_in_def dest: reads_like)

lemma reads_like_history:
  assumes "list_all (reads_like wl) l" "process_history K cfg now calm wl" "wl' \<in> read_in l"
  shows "process_history K cfg now calm wl'"
  using assms(2) same_ownedD [OF reads_like_in [OF assms(1,3)]] by (rule process_history.outside)

lemma writes_like_in:
  assumes "entry_ran K cfg now e l" "list_ex (writes_like wl) l"
  shows "\<exists>wl' a. PatchObject (Object wl') (patch_of wl') a \<in> set l \<and> same_owned wl (wl_annotations wl')"
proof -
  from assms(2) obtain c where c: "c \<in> set l" "writes_like wl c" by (auto simp: list_ex_iff)
  from c(2) obtain obj p a where patch: "c = PatchObject obj p a" "same_owned wl (Annotations (object_meta obj))"
    unfolding writes_like_def by (cases c) simp_all
  from patches_ok_in [OF entry_writes [OF assms(1)] c(1) [unfolded patch(1)]] c(1) patch show ?thesis by auto
qed

lemma history_advance:
  assumes run: "entry_ran K cfg now e l" "list_all (reads_like wl) l" "list_ex (writes_like wl2) l"
    and wl: "process_history K cfg now calm wl" "calm \<Longrightarrow> drain_state wl = ''''"
  shows "process_history K cfg now calm wl2"
proof -
  obtain wl' a where wl': "PatchObject (Object wl') (patch_of wl') a \<in> set l" "same_owned wl2 (wl_annotations wl')"
    using writes_like_in [OF run(1,3)] by blast
  have "drain_state seen = drain_state wl" if "seen \<in> read_in l" for seen
    using owned_get_cong(1) [OF same_ownedD [OF reads_like_in [OF run(2) that]]] .
  with wl(2) have calm: "calm \<Longrightarrow> \<not> (\<exists>seen \<in> read_in l. strands_drain seen wl')" by (auto simp: strands_drain_def)
  have "process_history K cfg now calm (merged (patch_of wl') wl)"
    using run(1) reads_like_history [OF run(2) wl(1)] wl(1) wl'(1) calm by (rule process_history.written)
  then show ?thesis
    by (rule process_history.outside) (simp only: anno_lookup_merged_owned same_ownedD [OF wl'(2)])
qed

lemma trace_of_entry:
  "entry_ran sim cfg now (NodeRequest n) (trace_of (Reconcile sim cfg n) c)"
  "entry_ran sim cfg now (RolloutRequest req) (trace_of (restart_Reconcile sim cfg now req) c)"
  "entry_ran sim cfg now (Elected b) (trace_of (elected_recovery sim cfg b) c)"
  by (auto simp: ran_def calls_of_def trace_of_def start_world_def intro!: exI [of _ "start_world c"])



text \<open>\<open>l\<close> reads only objects like \<open>wl\<close>, and writes one like \<open>wl2\<close>.\<close>

definition leads_to :: "DrainableWorkload \<Rightarrow> DrainableWorkload \<Rightarrow> api_call list \<Rightarrow> bool" where
  "leads_to wl wl2 l \<longleftrightarrow> list_all (reads_like wl) l \<and> list_ex (writes_like wl2) l"

lemmas leads_toD = leads_to_def [THEN iffD1, THEN conjunct1] leads_to_def [THEN iffD1, THEN conjunct2]

lemma leads_to_history:
  "leads_to wl wl2 l \<Longrightarrow> entry_ran K cfg now e l \<Longrightarrow> process_history K cfg now calm wl \<Longrightarrow>
     (calm \<Longrightarrow> drain_state wl = '''') \<Longrightarrow> process_history K cfg now calm wl2"
  unfolding leads_to_def using history_advance by blast

text \<open>
  The demo Rollout in a restart surge, then in a drain as well (after its replica count was reset and its
  restart request withdrawn), then in a drain without the record; and the cluster it is in.
\<close>

definition chain_annotated :: "(string \<rightharpoonup> string) \<Rightarrow> Rollout" where
  "chain_annotated m = ro_SetAnnotations (Some (m(AnnotationEnabled \<mapsto> ''true''))) demo_rollout"

definition chain_rollouts :: "Rollout \<Rightarrow> cluster" where
  "chain_rollouts ro = demo_cluster\<lparr>c_rollouts := [ro], c_deployments := [],
     c_replicasets := [\<lparr>rs_ObjectMeta = demo_meta ''web-rs'' None
       [\<lparr>ref_APIVersion = ''argoproj.io/v1alpha1'', ref_Kind = ''Rollout'', ref_Name = ''web''\<rparr>]\<rparr>]\<rparr>"

definition chain_surged :: Rollout where
  "chain_surged = chain_annotated [AnnotationRestartSurgeState \<mapsto> DrainStateScaledUp,
     AnnotationRestartSurgeStart \<mapsto> ''2024-07-08T01:46:40Z'', AnnotationOriginalReplicas \<mapsto> ''1'']"

definition chain_both :: Rollout where
  "chain_both = (chain_annotated [AnnotationRestartSurgeState \<mapsto> DrainStateScaledUp,
     AnnotationRestartSurgeStart \<mapsto> ''2024-07-08T01:46:40Z'', AnnotationOriginalReplicas \<mapsto> ''1'',
     AnnotationDrainState \<mapsto> DrainStateScaledUp, AnnotationDrainNode \<mapsto> ''n1'', AnnotationDrainStart \<mapsto> ''2024-07-08T01:46:40Z''])
     \<lparr>ro_RestartAt := None\<rparr>"

definition chain_stranded :: Rollout where
  "chain_stranded = chain_annotated [AnnotationDrainState \<mapsto> DrainStateScaledUp,
     AnnotationDrainNode \<mapsto> ''n1'', AnnotationDrainStart \<mapsto> ''2024-07-08T01:46:40Z'']"

definition web_request :: Request where
  "web_request = \<lparr>req_Namespace = ''shop'', req_Name = ''web''\<rparr>"

lemma chain_first: "leads_to (RolloutWorkload demo_rollout) (RolloutWorkload chain_surged)
    (trace_of (restart_Reconcile sim demo_config None web_request) (chain_rollouts demo_rollout))"
  by code_simp

lemma chain_second: "leads_to (RolloutWorkload chain_surged) (RolloutWorkload chain_both)
    (trace_of (Reconcile sim demo_config ''n1'') (chain_rollouts chain_surged))"
  by code_simp

lemma chain_third: "leads_to (RolloutWorkload chain_both) (RolloutWorkload chain_stranded)
    (trace_of (elected_recovery sim demo_config True) (chain_rollouts chain_both))"
  by code_simp

lemma chain_fourth: "leads_to (RolloutWorkload chain_stranded) (RolloutWorkload demo_rollout)
    (trace_of (Reconcile sim demo_config ''n1'') (chain_rollouts chain_stranded))"
  by code_simp


lemma chain_rollout_untouched:
  "k \<in> set drainAnnotationKeys \<Longrightarrow> anno_lookup (wl_annotations (RolloutWorkload demo_rollout)) k = None"
  by (auto simp: drainAnnotationKeys_def demo_rollout_def demo_meta_def key_defs)

lemma chain_both_history: "process_history sim demo_config None calm (RolloutWorkload chain_both)"
proof -
  have "process_history sim demo_config None calm (RolloutWorkload demo_rollout)"
    using chain_rollout_untouched by (rule process_history.fresh)
  then have "process_history sim demo_config None calm (RolloutWorkload chain_surged)"
    by (rule leads_to_history [OF chain_first trace_of_entry(2)]) (simp add: chain_rollout_untouched anno_get_def del: GetObjectMeta.simps)
  then show ?thesis
    by (rule leads_to_history [OF chain_second trace_of_entry(1)])
      (simp add: chain_surged_def chain_annotated_def ro_SetAnnotations_def key_simps anno_get_def)
qed

lemma chain_stranded_history: "process_history sim demo_config None False (RolloutWorkload chain_stranded)"
  using chain_both_history by (rule leads_to_history [OF chain_third trace_of_entry(3)]) simp

lemma chain_both_states:
  "drain_state (RolloutWorkload chain_both) = DrainStateScaledUp" "restart_state (RolloutWorkload chain_both) = DrainStateScaledUp"
  by (simp_all add: chain_both_def chain_annotated_def ro_SetAnnotations_def key_simps)

section \<open>While no restart surge is aborted in a drain\<close>

text \<open>
  C10. Take any state a workload can reach by writes of the process, whichever of its programs makes them (the
  reconciles of nodes, the requests for Rollouts, the recovery after an election), from current or stale reads,
  merged by the server into what it then holds, interleaved with changes by others that leave the
  owned annotations alone, starting from none of these annotations; and suppose that no restart surge
  was aborted on a Rollout read in the middle of a drain, be it by the overrun check or by the recovery. Then
  the states of both machines are known ones, and while either operation is under way one original
  replica is on record and an abort by either controller writes one replica.
\<close>

theorem calm_history_restores_one:
  assumes "process_history K cfg now True wl"
  shows "drain_state wl \<in> {'''', DrainStateScaledUp, DrainStateReady, DrainStateDraining, DrainStateDone} \<and>
     restart_state wl \<in> {'''', DrainStateScaledUp, DrainStateReady, DrainStateDraining, DrainStateDone} \<and>
     (drain_state wl \<noteq> '''' \<or> restart_state wl \<noteq> '''' \<longrightarrow> getOriginalReplicas (wl_annotations wl) = Inr 1 \<and>
        GetReplicas (drain_aborted wl) = 1 \<and> GetReplicas (restart_aborted wl) = 1)"
  using process_history_inv [OF assms]
  by (auto simp: joint_inv_def surge_inv_def aborted_def restored_def split: sum.splits)

theorem calm_history_restores_one_witness:
  "process_history sim demo_config None True (RolloutWorkload chain_both) \<and>
   drain_state (RolloutWorkload chain_both) = DrainStateScaledUp \<and> restart_state (RolloutWorkload chain_both) = DrainStateScaledUp \<and>
   GetReplicas (drain_aborted (RolloutWorkload chain_both)) = 1 \<and> GetReplicas (restart_aborted (RolloutWorkload chain_both)) = 1"
  using calm_history_restores_one [OF chain_both_history] chain_both_history [of True] chain_both_states
  by (simp del: GetObjectMeta.simps GetReplicas.simps)

section \<open>In every history\<close>

text \<open>
  C40. With no restriction on the histories, restart surges aborted in the middle of a drain included: every
  workload a run of the process reads is in known states, and its record of the original count reads one
  or is gone together with the autoscaler's name. Every patch the run sends is the complete patch of a
  workload it has read, under the same name and kind, with the replica count it has read or with one or
  two; for a drain that has lost its record, with the count it has read, and its state kept or cleared. So the
  only counts the process picks itself are one and two; others it only sends back as read.
\<close>

theorem every_run_bounds_replicas:
  assumes "entry_ran K cfg now e l" "\<And>wl. wl \<in> read_in l \<Longrightarrow> process_history K cfg now False wl"
  shows "(\<forall>wl \<in> read_in l. {drain_state wl, restart_state wl} \<subseteq> {'''', DrainStateScaledUp, DrainStateReady, DrainStateDraining, DrainStateDone} \<and>
       (getOriginalReplicas (wl_annotations wl) = Inr 1 \<or>
        isl (getOriginalReplicas (wl_annotations wl)) \<and> anno_get (wl_annotations wl) AnnotationHPAName = '''')) \<and>
     patches_ok (\<lambda>wl'. \<exists>wl \<in> read_in l. same_object wl wl' \<and> GetReplicas wl' \<in> {GetReplicas wl, 1, 2} \<and>
       (drain_state wl \<noteq> '''' \<and> isl (getOriginalReplicas (wl_annotations wl)) \<longrightarrow>
          GetReplicas wl' = GetReplicas wl \<and> drain_state wl' \<in> {drain_state wl, ''''})) l"
proof
  have inv: "process_inv wl" if "wl \<in> read_in l" for wl using process_history_inv [OF assms(2) [OF that]] by simp
  then show "\<forall>wl \<in> read_in l. {drain_state wl, restart_state wl} \<subseteq> {'''', DrainStateScaledUp, DrainStateReady, DrainStateDraining, DrainStateDone} \<and>
       (getOriginalReplicas (wl_annotations wl) = Inr 1 \<or>
        isl (getOriginalReplicas (wl_annotations wl)) \<and> anno_get (wl_annotations wl) AnnotationHPAName = '''')"
    unfolding process_inv_def record_ok_def known_states_def by blast
  show "patches_ok (\<lambda>wl'. \<exists>wl \<in> read_in l. same_object wl wl' \<and> GetReplicas wl' \<in> {GetReplicas wl, 1, 2} \<and>
       (drain_state wl \<noteq> '''' \<and> isl (getOriginalReplicas (wl_annotations wl)) \<longrightarrow>
          GetReplicas wl' = GetReplicas wl \<and> drain_state wl' \<in> {drain_state wl, ''''})) l"
    using entry_writes [OF assms(1)] by (rule patches_ok_mono) (use inv process_write_bound process_write_lost in blast)
qed

theorem every_run_bounds_replicas_witness:
  "process_history sim demo_config None False (RolloutWorkload chain_stranded) \<and>
   drain_state (RolloutWorkload chain_stranded) = DrainStateScaledUp \<and>
   isl (getOriginalReplicas (wl_annotations (RolloutWorkload chain_stranded))) \<and>
   (\<exists>wl wl'. drain_state wl = DrainStateScaledUp \<and> drain_state wl' = '''' \<and> same_object wl wl' \<and> GetReplicas wl' = GetReplicas wl \<and>
      wl' \<in> patched_in (trace_of (Reconcile sim demo_config ''n1'') (chain_rollouts chain_stranded)))"
proof -
  let ?l = "trace_of (Reconcile sim demo_config ''n1'') (chain_rollouts chain_stranded)"
  have st: "drain_state (RolloutWorkload chain_stranded) = DrainStateScaledUp"
    "isl (getOriginalReplicas (wl_annotations (RolloutWorkload chain_stranded)))"
    by (simp_all add: chain_stranded_def chain_annotated_def ro_SetAnnotations_def key_simps getOriginalReplicas_def)
  have like: "drain_state wl = DrainStateScaledUp" "isl (getOriginalReplicas (wl_annotations wl))" if "wl \<in> read_in ?l" for wl
    using owned_get_cong [OF same_ownedD [OF reads_like_in [OF leads_toD(1) [OF chain_fourth] that]]] st by simp_all
  note h = reads_like_history [OF leads_toD(1) [OF chain_fourth] chain_stranded_history]
  obtain wl2 p a where p: "PatchObject (Object wl2) p a \<in> set ?l" "same_owned (RolloutWorkload demo_rollout) (wl_annotations wl2)"
    using writes_like_in [OF trace_of_entry(1) leads_toD(2) [OF chain_fourth]] by blast
  from patches_ok_in [OF every_run_bounds_replicas [OF trace_of_entry(1) h, THEN conjunct2] p(1)]
  obtain wl where w: "p = patch_of wl2" "wl \<in> read_in ?l" "same_object wl wl2"
    "drain_state wl \<noteq> '''' \<and> isl (getOriginalReplicas (wl_annotations wl)) \<longrightarrow> GetReplicas wl2 = GetReplicas wl" by auto
  moreover have "drain_state wl2 = ''''"
    using owned_get_cong(1) [OF same_ownedD [OF p(2)]] chain_rollout_untouched [of AnnotationDrainState] by (simp add: anno_get_def)
  ultimately show ?thesis
    using p(1) st chain_stranded_history like [OF w(2)] by (auto simp: patched_in_def simp del: GetObjectMeta.simps)
qed

end
