(* ===== verification/NodePass.thy ===== *)
theory NodePass
  imports DrainProperties "HOL-Library.Multiset"
begin

text \<open>
  A pass over a tainted node, taken apart into the runs of its parts: which pods are resolved, which
  workloads that gives, and that each of them is reconciled once, whatever happens to the others.
\<close>

section \<open>Sequences of runs\<close>

type_synonym ('x, 'r) runs = "('x \<times> 'r \<times> api_call list) list"

definition each_ran :: "('x \<Rightarrow> ('s, 'r) api_prog) \<Rightarrow> ('x, 'r) runs \<Rightarrow> bool" where
  "each_ran m vs \<longleftrightarrow> (\<forall>(x, r, l) \<in> set vs. ran (m x) r l)"

definition all_calls :: "('x, 'r) runs \<Rightarrow> api_call list" where
  "all_calls vs = concat (map (snd \<circ> snd) vs)"

lemma each_ran_simps [simp]:
  "each_ran m []" "each_ran m ((x, r, l) # vs) \<longleftrightarrow> ran (m x) r l \<and> each_ran m vs"
  by (simp_all add: each_ran_def)

lemma all_calls_simps [simp]: "all_calls [] = []" "all_calls ((x, r, l) # vs) = l @ all_calls vs"
  by (simp_all add: all_calls_def)

section \<open>Collecting the workloads\<close>

definition live_pod :: "Pod \<Rightarrow> bool" where
  "live_pod pod \<longleftrightarrow> pod_Phase pod \<noteq> PodSucceeded \<and> pod_Phase pod \<noteq> PodFailed \<and> DeletionTimestamp (pod_ObjectMeta pod) = None"

definition resolved :: "(Pod, error + DrainableWorkload option) runs \<Rightarrow> DrainableWorkload list" where
  "resolved ps = List.map_filter (\<lambda>(_, r, _). case r of Inr (Some wl) \<Rightarrow> Some wl | _ \<Rightarrow> None) ps"

definition listed :: "error + workload_map \<Rightarrow> DrainableWorkload list" where
  "listed ex = (case ex of Inl _ \<Rightarrow> [] | Inr ws \<Rightarrow> map snd ws)"

definition keyed :: "workload_map \<Rightarrow> bool" where
  "keyed ws \<longleftrightarrow> distinct (map fst ws) \<and> (\<forall>(k, wl) \<in> set ws. k = wl_key wl)"

lemma keyed_Nil [simp]: "keyed []"
  by (simp add: keyed_def)

lemma keyed_values: "keyed ws \<Longrightarrow> map (\<lambda>wl. (wl_key wl, wl)) (map snd ws) = ws"
  unfolding keyed_def by (induction ws) auto

lemma keyed_first: "keyed ws \<Longrightarrow> first_by_key (map snd ws) = map_of ws"
  unfolding first_by_key_def by (simp only: keyed_values)

lemma first_by_key_append: "first_by_key (wls @ wls') = first_by_key wls' ++ first_by_key wls"
  by (simp add: first_by_key_def)

abbreviation put_wl :: "DrainableWorkload \<Rightarrow> workload_map \<Rightarrow> workload_map" where
  "put_wl wl \<equiv> put_if_absent (wl_key wl) wl"

lemma keyed_put: "keyed ws \<Longrightarrow> keyed (put_wl wl ws)"
  by (auto simp: keyed_def put_if_absent_def map_of_eq_None_iff split: option.splits)

lemma map_of_put: "map_of (put_if_absent k wl ws) = [k \<mapsto> wl] ++ map_of ws"
  by (rule ext) (auto simp: put_if_absent_def map_add_def split: option.splits)

lemma keyed_fold_put: "keyed ws \<Longrightarrow> keyed (fold put_wl wls ws)"
  by (induction wls arbitrary: ws) (simp_all add: keyed_put)

lemma map_of_fold_put: "map_of (fold put_wl wls ws) = first_by_key wls ++ map_of ws"
proof (induction wls arbitrary: ws)
  case (Cons wl wls)
  then show ?case by (simp add: map_of_put first_by_key_def map_add_assoc [symmetric]) (simp add: map_add_upd_left map_add_def fun_eq_iff split: option.splits)
qed (simp add: first_by_key_def)

lemma keyed_fold_pairs: "keyed ws' \<Longrightarrow> fold (\<lambda>(k, wl). put_if_absent k wl) ws' ws = fold put_wl (map snd ws') ws"
  unfolding keyed_def by (induction ws' arbitrary: ws) auto

lemma keyed_update: "keyed ws \<Longrightarrow> keyed (AList.update (wl_key wl) wl ws)"
  unfolding keyed_def
proof (elim conjE, intro conjI)
  assume "distinct (map fst ws)" then show "distinct (map fst (AList.update (wl_key wl) wl ws))" by (rule distinct_update)
  assume "\<forall>(k, wl) \<in> set ws. k = wl_key wl" then show "\<forall>(k, wl') \<in> set (AList.update (wl_key wl) wl ws). k = wl_key wl'"
    by (induction ws) auto
qed

lemma keyed_fold_update: "keyed ws \<Longrightarrow> keyed (fold (\<lambda>wl. AList.update (wl_key wl) wl) wls ws)"
  by (induction wls arbitrary: ws) (simp_all add: keyed_update)

text \<open>
  What the two lists of the workloads recorded for a node give: nothing if one of them fails, else the
  listed Rollouts and Deployments, of which the collection keeps the last under each key.
\<close>

definition recorded_lists :: "string \<Rightarrow> api_call list \<Rightarrow> DrainableWorkload list \<Rightarrow> bool" where
  "recorded_lists n l recs \<longleftrightarrow>
     (\<exists>e. l = [ListRolloutsByDrainNode n (Inl e)] \<and> recs = []) \<or>
     (\<exists>ros e. l = [ListRolloutsByDrainNode n (Inr ros), ListDeploymentsByDrainNode n (Inl e)] \<and> recs = []) \<or>
     (\<exists>ros deps. l = [ListRolloutsByDrainNode n (Inr ros), ListDeploymentsByDrainNode n (Inr deps)] \<and>
        recs = drain_workloads ros deps)"

lemma first_by_key_listed:
  "keyed ws \<Longrightarrow> first_by_key (listed (Inr ws)) = map_of ws"
  by (simp add: listed_def keyed_first)

lemma emits_findWorkloads_recorded:
  "emits (findWorkloadsWithDrainNode K n) (\<lambda>r l. (\<forall>ws. r = Inr ws \<longrightarrow> keyed ws) \<and>
     (\<exists>recs. recorded_lists n l recs \<and> first_by_key (listed r) = first_by_key (rev recs)))"
  unfolding findWorkloadsWithDrainNode_def drain_workloads_def [symmetric]
  by (intro emits_checked emits_client_call emits_return case_sumI)
    (auto simp: api_result_Inl_iff api_result_Inr_iff recorded_lists_def keyed_fold_update first_by_key_listed map_of_collected
       listed_def [of "Inl _"])

text \<open>Go's \<open>range\<close> visits every entry of a map once.\<close>

lemma map_filter_keys: "map fst (List.map_filter (\<lambda>k. map_option (Pair k) (f k)) ks) = filter (\<lambda>k. f k \<noteq> None) ks"
  by (induction ks) (auto simp: map_filter_simps split: option.splits)

lemma range_map_keyed:
  assumes "\<And>ks. mset (pf_range_order K ks) = mset ks" "keyed ws"
  shows "keyed (range_map K ws)" "map_of (range_map K ws) = map_of ws"
proof -
  have keys: "set (pf_range_order K ks) = set ks" for ks by (rule mset_eq_setD [OF assms(1)])
  have ws: "distinct (map fst ws)" using assms(2) by (simp add: keyed_def)
  then have "distinct (map fst (range_map K ws))"
    using mset_eq_imp_distinct_iff [OF assms(1)] by (simp add: range_map_def map_filter_keys)
  moreover have same: "set (range_map K ws) = set ws"
    using ws by (force simp: in_range_map keys)
  ultimately show "keyed (range_map K ws)" "map_of (range_map K ws) = map_of ws"
    using assms(2) ws map_of_inject_set by (auto simp: keyed_def)
qed

section \<open>The parts of a pass\<close>

lemma emits_resolve_pods_runs:
  "emits (resolve_pods K pods ws) (\<lambda>ws' l. \<exists>ps. map fst ps = filter live_pod pods \<and>
     each_ran (ResolveWorkloadFromPod K) ps \<and> l = all_calls ps \<and> ws' = fold put_wl (resolved ps) ws)"
proof (induction pods arbitrary: ws)
  case Nil
  then show ?case by (simp add: emits_return resolved_def map_filter_simps)
next
  case (Cons pod pods)
  show ?case
  proof (cases "live_pod pod")
    case False
    then have "resolve_pods K (pod # pods) ws = resolve_pods K pods ws" by (simp add: live_pod_def)
    with False Cons show ?thesis by simp
  next
    case True
    have add: "\<exists>ps. map fst ps = filter live_pod (pod # pods) \<and> each_ran (ResolveWorkloadFromPod K) ps \<and>
        l @ l' = all_calls ps \<and> ws' = fold put_wl (resolved ps) ws"
      if "ran (ResolveWorkloadFromPod K pod) r l" and "\<exists>ps. map fst ps = filter live_pod pods \<and>
        each_ran (ResolveWorkloadFromPod K) ps \<and> l' = all_calls ps \<and>
        ws' = fold put_wl (resolved ps) (case r of Inr (Some wl) \<Rightarrow> put_wl wl ws | _ \<Rightarrow> ws)" for r l l' ws'
    proof -
      from that(2) obtain ps where "map fst ps = filter live_pod pods" "each_ran (ResolveWorkloadFromPod K) ps" "l' = all_calls ps"
        "ws' = fold put_wl (resolved ps) (case r of Inr (Some wl) \<Rightarrow> put_wl wl ws | _ \<Rightarrow> ws)" by blast
      with that(1) True show ?thesis
        by (intro exI [of _ "(pod, r, l) # ps"]) (auto simp: resolved_def map_filter_simps split: sum.splits option.splits)
    qed
    have next_pods: "case_sum (\<lambda>_. resolve_pods K pods ws)
        (case_option (resolve_pods K pods ws) (\<lambda>wl. resolve_pods K pods (put_wl wl ws))) =
      (\<lambda>r. resolve_pods K pods (case r of Inr (Some wl) \<Rightarrow> put_wl wl ws | _ \<Rightarrow> ws))"
      by (rule ext) (simp split: sum.splits option.splits)
    have "resolve_pods K (pod # pods) ws = do {
        r \<leftarrow> ResolveWorkloadFromPod K pod;
        resolve_pods K pods (case r of Inr (Some wl) \<Rightarrow> put_wl wl ws | _ \<Rightarrow> ws) }"
      using True by (simp add: live_pod_def next_pods)
    then show ?thesis
      by (simp only:) (rule emits_bind, rule emits_mono [OF emits_ran [OF emits_ResolveWorkloadFromPod]],
        rule emits_mono [OF Cons.IH], elim conjE, erule (1) add)
  qed
qed

definition outcomes :: "(DrainableWorkload, error + Result) runs \<Rightarrow> Result list" where
  "outcomes vs = List.map_filter (\<lambda>(_, r, _). case r of Inr res \<Rightarrow> Some res | Inl _ \<Rightarrow> None) vs"

lemma emits_reconcile_all_runs:
  "emits (reconcile_all K cfg n ws d) (\<lambda>r l. \<exists>vs. map fst vs = map snd ws \<and>
     each_ran (\<lambda>wl. reconcileWorkload K cfg wl n) vs \<and> l = all_calls vs \<and>
     r = Inr (fold (\<lambda>res d. merge_requeue d res) (outcomes vs) d))"
proof (induction ws arbitrary: d)
  case Nil
  then show ?case by (simp add: emits_return outcomes_def map_filter_simps)
next
  case (Cons kw ws)
  obtain k wl where kw: "kw = (k, wl)" by (cases kw)
  have add: "\<exists>vs. map fst vs = map snd (kw # ws) \<and> each_ran (\<lambda>wl. reconcileWorkload K cfg wl n) vs \<and>
      l @ l' = all_calls vs \<and> b = Inr (fold (\<lambda>res d. merge_requeue d res) (outcomes vs) d)"
    if "ran (reconcileWorkload K cfg wl n) r l" and "\<exists>vs. map fst vs = map snd ws \<and>
      each_ran (\<lambda>wl. reconcileWorkload K cfg wl n) vs \<and> l' = all_calls vs \<and>
      b = Inr (fold (\<lambda>res d. merge_requeue d res) (outcomes vs) (case r of Inr res \<Rightarrow> merge_requeue d res | Inl _ \<Rightarrow> d))" for r l l' b
  proof -
    from that(2) obtain vs where "map fst vs = map snd ws" "each_ran (\<lambda>wl. reconcileWorkload K cfg wl n) vs" "l' = all_calls vs"
      "b = Inr (fold (\<lambda>res d. merge_requeue d res) (outcomes vs) (case r of Inr res \<Rightarrow> merge_requeue d res | Inl _ \<Rightarrow> d))" by blast
    with that(1) show ?thesis
      by (intro exI [of _ "(wl, r, l) # vs"]) (auto simp: kw outcomes_def map_filter_simps split: sum.splits)
  qed
  have one: "emits (reconcileWorkload K cfg wl n) (\<lambda>r l. no_panic r \<and> ran (reconcileWorkload K cfg wl n) r l)"
    using emits_ran [OF drain_ok_reconcileWorkload] by (rule emits_mono) (simp add: drain_ok_def)
  show ?case
    unfolding kw reconcile_all.simps
  proof (rule emits_bind, rule emits_mono [OF one], elim conjE)
    fix r l assume r: "no_panic r" "ran (reconcileWorkload K cfg wl n) r l"
    have "(case r of Inl e \<Rightarrow> if is_panic e then ret (Inl e) else reconcile_all K cfg n ws d
        | Inr res \<Rightarrow> reconcile_all K cfg n ws (merge_requeue d res)) =
      reconcile_all K cfg n ws (case r of Inr res \<Rightarrow> merge_requeue d res | Inl _ \<Rightarrow> d)"
      using r(1) by (simp add: no_panic_def split: sum.splits)
    then show "emits (case r of Inl e \<Rightarrow> if is_panic e then ret (Inl e) else reconcile_all K cfg n ws d
        | Inr res \<Rightarrow> reconcile_all K cfg n ws (merge_requeue d res)) (\<lambda>b l'. \<exists>vs. map fst vs = map snd ((k, wl) # ws) \<and>
          each_ran (\<lambda>wl. reconcileWorkload K cfg wl n) vs \<and> l @ l' = all_calls vs \<and>
          b = Inr (fold (\<lambda>res d. merge_requeue d res) (outcomes vs) d))"
      by (simp only: kw [symmetric]) (rule emits_mono [OF Cons.IH], erule add [OF r(2)])
  qed
qed

section \<open>The whole pass\<close>

definition least_requeue :: "Result list \<Rightarrow> int" where
  "least_requeue rs = (if positive_requeues rs = {} then 0 else Min (positive_requeues rs))"

lemma least_requeue_nonneg: "0 \<le> least_requeue rs"
proof -
  have "finite (positive_requeues rs)" by (simp add: positive_requeues_def)
  from Min_in [OF this] show ?thesis by (auto simp: least_requeue_def positive_requeues_def)
qed

text \<open>
  What a pass over a tainted node does: it lists the node's pods, resolves the live ones, lists the
  workloads recorded for the node, and reconciles one workload for every key found: the first one
  resolved from a pod, or else the one listed last. The requeue time is the least positive one the
  reconciles asked for.
\<close>

definition full_pass ::
  "'s platform \<Rightarrow> Config \<Rightarrow> Node \<Rightarrow> error + Result \<Rightarrow> api_call list \<Rightarrow> bool" where
  "full_pass K cfg node r l \<longleftrightarrow> (\<exists>pods ps recs lf vs res.
     l = ListPodsOnNode (node_Name node) (Inr pods) # all_calls ps @ lf @ all_calls vs \<and>
     map fst ps = filter live_pod pods \<and> each_ran (ResolveWorkloadFromPod K) ps \<and>
     recorded_lists (node_Name node) lf recs \<and>
     each_ran (\<lambda>wl. reconcileWorkload K cfg wl (node_Name node)) vs \<and>
     distinct (map (wl_key \<circ> fst) vs) \<and> first_by_key (map fst vs) = first_by_key (resolved ps @ rev recs) \<and>
     r = Inr res \<and> sint (RequeueAfter res) = least_requeue (outcomes vs))"

lemma keyed_visits:
  assumes "keyed ws" "map fst vs = map snd ws"
  shows "distinct (map (wl_key \<circ> fst) vs)" "first_by_key (map fst vs) = map_of ws"
proof -
  have "map (wl_key \<circ> fst) vs = map wl_key (map snd ws)" unfolding assms(2) [symmetric] by simp
  also have "\<dots> = map fst ws" using assms(1) by (auto simp: keyed_def)
  finally show "distinct (map (wl_key \<circ> fst) vs)" using assms(1) by (simp add: keyed_def)
  show "first_by_key (map fst vs) = map_of ws" unfolding assms(2) by (rule keyed_first [OF assms(1)])
qed

lemma merged_map:
  assumes "\<And>ks. mset (pf_range_order K ks) = mset ks" "\<forall>ws. ex = Inr ws \<longrightarrow> keyed ws"
    and "workloads = (case ex of Inl _ \<Rightarrow> fold put_wl wls [] | Inr ws \<Rightarrow> fold (\<lambda>(k, wl). put_if_absent k wl) (range_map K ws) (fold put_wl wls []))"
  shows "keyed (range_map K workloads)" "map_of (range_map K workloads) = first_by_key (wls @ listed ex)"
proof -
  have "keyed workloads \<and> map_of workloads = first_by_key (wls @ listed ex)"
  proof (cases ex)
    case (Inl e)
    then show ?thesis using assms(3) by (simp add: listed_def keyed_fold_put map_of_fold_put)
  next
    case (Inr ws)
    with assms(2) have ws: "keyed ws" by simp
    note rm = range_map_keyed [OF assms(1) ws]
    have "first_by_key (map snd (range_map K ws)) = first_by_key (map snd ws)"
      using keyed_first [OF rm(1)] keyed_first [OF ws] rm(2) by simp
    with Inr assms(3) rm(1) show ?thesis
      by (simp add: listed_def keyed_fold_pairs keyed_fold_put map_of_fold_put first_by_key_append)
  qed
  then show "keyed (range_map K workloads)" "map_of (range_map K workloads) = first_by_key (wls @ listed ex)"
    using range_map_keyed [OF assms(1)] by auto
qed

text \<open>The loop of the pass with the requeue time it returns; an empty map needs no pass of its own.\<close>

lemma emits_pass_loop:
  assumes "\<And>ks. mset (pf_range_order K ks) = mset ks"
  shows "emits (if length ws = 0 then ret (Inr ctrl_Result)
      else checked id (reconcile_all K cfg n (range_map K ws) 0)
        (\<lambda>d. if 0 <s d then ret (Inr (requeue_after d)) else ret (Inr ctrl_Result)))
    (\<lambda>r l. \<exists>vs res. map fst vs = map snd (range_map K ws) \<and> each_ran (\<lambda>wl. reconcileWorkload K cfg wl n) vs \<and>
      l = all_calls vs \<and> r = Inr res \<and> sint (RequeueAfter res) = least_requeue (outcomes vs))"
proof (cases "ws = []")
  case True
  have "range_map K [] = []" using range_map_keyed(2) [OF assms keyed_Nil] by simp
  with True show ?thesis
    by (auto intro!: emits_return exI [of _ "[]"]
      simp: outcomes_def map_filter_simps least_requeue_def positive_requeues_def ctrl_Result_def)
next
  case False
  have due: "sint d = least_requeue (outcomes vs)" if "d = fold (\<lambda>res d. merge_requeue d res) (outcomes vs) 0" for d vs
    unfolding that least_requeue_def by (rule requeue_is_least_positive)
  have result: "emits (if 0 <s d then ret (Inr (requeue_after d)) else ret (Inr ctrl_Result)) (\<lambda>r l'. \<exists>vs' res.
      map fst vs' = map snd (range_map K ws) \<and> each_ran (\<lambda>wl. reconcileWorkload K cfg wl n) vs' \<and>
      l @ l' = all_calls vs' \<and> r = Inr res \<and> sint (RequeueAfter res) = least_requeue (outcomes vs'))"
    if "map fst vs = map snd (range_map K ws)" "each_ran (\<lambda>wl. reconcileWorkload K cfg wl n) vs" "l = all_calls vs"
      "d = fold (\<lambda>res d. merge_requeue d res) (outcomes vs) 0" for vs l d
    using that due [OF that(4)] least_requeue_nonneg [of "outcomes vs"]
    by (auto intro!: emits_if emits_return exI [of _ vs] simp: requeue_after_def ctrl_Result_def)
  show ?thesis
    by (simp only: length_0_conv False if_False, rule emits_checked, rule emits_mono [OF emits_reconcile_all_runs])
      (elim exE conjE, simp only: sum.case, rule result, (assumption | rule refl)+)
qed

lemma full_pass_tainted:
  assumes "\<And>ks. mset (pf_range_order K ks) = mset ks"
  shows "emits (reconcileTaintedNode K cfg node) (\<lambda>r l.
     (\<exists>e. l = [ListPodsOnNode (node_Name node) (Inl e)] \<and> isl r) \<or> full_pass K cfg node r l)"
proof -
  let ?n = "node_Name node"
  let ?ws = "\<lambda>wls ex. case ex of Inl (_ :: error) \<Rightarrow> fold put_wl wls []
    | Inr ws \<Rightarrow> fold (\<lambda>(k, wl). put_if_absent k wl) (range_map K ws) (fold put_wl wls [])"
  have pass: "full_pass K cfg node r (ListPodsOnNode ?n (Inr pods) # all_calls ps @ lf @ l)"
    if "map fst ps = filter live_pod pods" "each_ran (ResolveWorkloadFromPod K) ps"
      "\<forall>ws. ex = Inr ws \<longrightarrow> keyed ws" "\<exists>recs. recorded_lists ?n lf recs \<and> first_by_key (listed ex) = first_by_key (rev recs)"
      "\<exists>vs res. map fst vs = map snd (range_map K (?ws (resolved ps) ex)) \<and> each_ran (\<lambda>wl. reconcileWorkload K cfg wl ?n) vs \<and>
        l = all_calls vs \<and> r = Inr res \<and> sint (RequeueAfter res) = least_requeue (outcomes vs)" for ps pods ex lf l r
  proof -
    from that(5) obtain vs res where vs: "map fst vs = map snd (range_map K (?ws (resolved ps) ex))"
      "each_ran (\<lambda>wl. reconcileWorkload K cfg wl ?n) vs" "l = all_calls vs" "r = Inr res"
      "sint (RequeueAfter res) = least_requeue (outcomes vs)" by blast
    from that(4) obtain recs where recs: "recorded_lists ?n lf recs" "first_by_key (listed ex) = first_by_key (rev recs)" by blast
    note m = merged_map [OF assms that(3) refl, of "resolved ps"]
    have "first_by_key (map fst vs) = first_by_key (resolved ps @ rev recs)"
      using keyed_visits(2) [OF m(1) vs(1)] m(2) recs(2) by (simp add: first_by_key_append)
    with keyed_visits(1) [OF m(1) vs(1)] vs(2-5) that(1,2) recs(1) show ?thesis unfolding full_pass_def by fastforce
  qed
  have body: "emits (do {
      workloads \<leftarrow> resolve_pods K pods [];
      existing \<leftarrow> findWorkloadsWithDrainNode K ?n;
      let workloads = (case existing of Inl _ \<Rightarrow> workloads
          | Inr ws \<Rightarrow> fold (\<lambda>(k, wl). put_if_absent k wl) (range_map K ws) workloads);
      (if length workloads = 0 then ret (Inr ctrl_Result)
       else checked id (reconcile_all K cfg ?n (range_map K workloads) 0)
         (\<lambda>d. if 0 <s d then ret (Inr (requeue_after d)) else ret (Inr ctrl_Result))) })
    (\<lambda>r l. full_pass K cfg node r (ListPodsOnNode ?n (Inr pods) # l))" for pods
    unfolding Let_def
    by (rule emits_bind, rule emits_mono [OF emits_resolve_pods_runs], rule emits_bind, rule emits_mono [OF emits_findWorkloads_recorded],
        rule emits_mono [OF emits_pass_loop [OF assms]], elim exE conjE, simp only:, rule pass) blast+
  show ?thesis
    unfolding reconcileTaintedNode_def
  proof (intro emits_checked emits_client_call case_sumI, goal_cases)
    case (2 r pods)
    then show ?case by (intro emits_mono [OF body]) (simp add: api_result_Inr_iff)
  qed (auto simp: api_result_Inl_iff)
qed

text \<open>
  C7. A reconcile of a tainted node lists the pods on it. If that fails it returns the error and makes
  no further call. Otherwise it finds the workloads that the owner references of the node's live pods lead to
  (a pod whose owners cannot be read is left out) and, if the lists of the Rollouts and of the Deployments
  recorded for the node both succeed, the listed ones (if one fails, none). For every namespace and
  name found it reconciles exactly one workload, whatever the other reconciles return: the first one
  found from a pod, or else the one listed last, so of a Rollout and a Deployment that share them
  one is left out. The result is no error, and asks for the least positive requeue time any of the
  reconciles asked for. Go's iteration over a map visits every entry once.
\<close>

theorem tainted_node_reconciles_all:
  assumes "\<And>ks. mset (pf_range_order K ks) = mset ks"
  shows "emits (Reconcile K cfg n) (\<lambda>r l. \<forall>node rest. l = GetNode n (Inr node) # rest \<longrightarrow> hasDrainTaint cfg node \<longrightarrow>
     (\<exists>e. rest = [ListPodsOnNode (node_Name node) (Inl e)] \<and> isl r) \<or> full_pass K cfg node r rest)"
proof -
  have quiet: "emits (abortWorkloadsForNode K m) (\<lambda>_ _. True)" for m
    by (rule emits_mono [OF emits_abortWorkloadsForNode]) simp
  show ?thesis
    unfolding Reconcile_def
    by (intro emits_bind emits_call emits_case_sum emits_if emits_return)
      (auto intro: emits_mono [OF quiet] emits_mono [OF full_pass_tainted [OF assms]])
qed

lemma sim_range_mset: "mset (pf_range_order sim ks) = mset ks"
  by (simp add: sim_def)

definition demo_pass :: "api_call list" where
  "demo_pass = trace_of (Reconcile sim demo_config ''n1'') demo_cluster"

lemma demo_pass_tainted:
  "case demo_pass of GetNode n (Inr node) # rest \<Rightarrow> n = ''n1'' \<and> hasDrainTaint demo_config node | _ \<Rightarrow> False"
  "\<not> isl (run_result (Reconcile sim demo_config ''n1'') demo_cluster)"
  by code_simp+

theorem tainted_node_reconciles_all_witness:
  "\<exists>node rest. demo_pass = GetNode ''n1'' (Inr node) # rest \<and> hasDrainTaint demo_config node \<and>
     full_pass sim demo_config node (run_result (Reconcile sim demo_config ''n1'') demo_cluster) rest"
  using demo_pass_tainted
    emits_run [OF tainted_node_reconciles_all [OF sim_range_mset], of demo_config "''n1''" demo_cluster]
  unfolding demo_pass_def [symmetric] by (auto split: list.splits api_call.splits sum.splits)

end
