(* ===== verification/Recovery.thy ===== *)
theory Recovery
  imports NodePass
begin

text \<open>
  The recovery after the election, taken apart into the runs of its parts: the lists it makes and
  the abort of each orphan they show, in the order of the lists.
\<close>

section \<open>Aborts one after the other\<close>

text \<open>\<open>l\<close> are the calls of one run of \<open>abort\<close> for each of the workloads, in order.\<close>

definition aborts_each ::
  "(DrainableWorkload \<Rightarrow> ('s, error + Result) api_prog) \<Rightarrow> DrainableWorkload list \<Rightarrow> api_call list \<Rightarrow> bool" where
  "aborts_each abort wls l \<longleftrightarrow> (\<exists>vs. map fst vs = wls \<and> each_ran abort vs \<and> l = all_calls vs)"

lemma aborts_each_Nil [simp]: "aborts_each abort [] l \<longleftrightarrow> l = []"
  by (auto simp: aborts_each_def)

lemma aborts_each_Cons: "ran (abort wl) r l \<Longrightarrow> aborts_each abort wls l' \<Longrightarrow> aborts_each abort (wl # wls) (l @ l')"
  unfolding aborts_each_def by (elim exE) (rule exI [of _ "(wl, r, l) # _"], auto)

lemma emits_abort_orphans_each:
  "emits (abort_orphans K tainted wls) (\<lambda>r l. r = Inr () \<and> aborts_each (abortWorkload K) (filter (is_orphan tainted) wls) l)"
proof (induction wls)
  case (Cons wl wls)
  have one: "emits (abortWorkload K wl) (\<lambda>r l. no_panic r \<and> ran (abortWorkload K wl) r l)"
    by (rule emits_ran, rule emits_abortWorkload) (rule abort_trace_no_panic)
  show ?case
    unfolding abort_orphans.simps
    by (intro emits_if emits_bind emits_mono [OF one] emits_case_sum emits_return emits_mono [OF Cons.IH])
      (auto simp: no_panic_def intro: aborts_each_Cons)
qed (simp add: emits_return)

lemma emits_restart_abort_orphans_each:
  "emits (restart_abort_orphans K ros) (\<lambda>r l. r = Inr () \<and>
     aborts_each (abortRestartSurge K) (map RolloutWorkload (filter restart_orphan ros)) l)"
proof (induction ros)
  case (Cons ro ros)
  have one: "emits (abortRestartSurge K wl) (\<lambda>r l. no_panic r \<and> ran (abortRestartSurge K wl) r l)" for wl
    by (rule emits_ran, rule emits_abortRestartSurge) (rule abort_trace_no_panic)
  show ?case
    unfolding restart_abort_orphans.simps
    by (intro emits_if emits_bind emits_mono [OF one] emits_case_sum emits_return emits_mono [OF Cons.IH])
      (auto simp: no_panic_def restart_orphan_def intro: aborts_each_Cons)
qed (simp add: emits_return)

section \<open>The scans\<close>

text \<open>
  The calls of the scan of the drain controller: it lists the nodes, then the Rollouts and aborts those recorded
  for a node that is not tainted, then the same with the Deployments; a list that fails is the last call.
\<close>

definition drain_scan :: "'s platform \<Rightarrow> Config \<Rightarrow> api_call list \<Rightarrow> bool" where
  "drain_scan K cfg l \<longleftrightarrow>
     (\<exists>e. l = [ListNodes (Inl e)]) \<or>
     (\<exists>nodes e. l = [ListNodes (Inr nodes), ListRollouts (Inl e)]) \<or>
     (\<exists>nodes ros la ans lb. l = ListNodes (Inr nodes) # ListRollouts (Inr ros) # la @ ListDeployments ans # lb \<and>
        aborts_each (abortWorkload K) (filter (is_orphan (tainted_names cfg nodes)) (map RolloutWorkload ros)) la \<and>
        (case ans of Inl _ \<Rightarrow> lb = [] | Inr deps \<Rightarrow>
          aborts_each (abortWorkload K) (filter (is_orphan (tainted_names cfg nodes)) (map DeploymentWorkload deps)) lb))"

text \<open>The scan of the restart controller lists the Rollouts and aborts those whose surge has no restart pending.\<close>

definition restart_scan :: "'s platform \<Rightarrow> api_call list \<Rightarrow> bool" where
  "restart_scan K l \<longleftrightarrow>
     (\<exists>e. l = [ListRollouts (Inl e)]) \<or>
     (\<exists>ros la. l = ListRollouts (Inr ros) # la \<and>
        aborts_each (abortRestartSurge K) (map RolloutWorkload (filter restart_orphan ros)) la)"

lemma drain_scan_listed:
  assumes "aborts_each (abortWorkload K) (filter (is_orphan (tainted_names cfg nodes)) (map RolloutWorkload ros)) la"
    and "case ans of Inl _ \<Rightarrow> lb = [] | Inr deps \<Rightarrow>
      aborts_each (abortWorkload K) (filter (is_orphan (tainted_names cfg nodes)) (map DeploymentWorkload deps)) lb"
  shows "drain_scan K cfg (ListNodes (Inr nodes) # ListRollouts (Inr ros) # la @ ListDeployments ans # lb)"
  unfolding drain_scan_def using assms by blast

lemma emits_drain_scan: "emits (RecoverOrphans K cfg) (\<lambda>r l. no_panic r \<and> drain_scan K cfg l)"
  unfolding RecoverOrphans_def Let_def
proof (intro emits_checked emits_client_call emits_mono [OF emits_abort_orphans_each] case_sumI emits_return, goal_cases)
  case (4 ra nodes rb ros r1 la u rc e)
  then show ?case using drain_scan_listed [where la = la and ans = rc and lb = "[]"] by (auto simp: api_result_Inl_iff)
next
  case (6 ra nodes rb ros r1 la u rc deps r2 lb u')
  then show ?case using drain_scan_listed [where la = la and ans = rc and lb = lb] by auto
qed (auto simp: drain_scan_def api_result_Inl_iff)

lemma emits_restart_scan: "emits (restart_RecoverOrphans K) (\<lambda>r l. no_panic r \<and> restart_scan K l)"
  unfolding restart_RecoverOrphans_def
  by (intro emits_checked emits_client_call emits_mono [OF emits_restart_abort_orphans_each] case_sumI)
    (auto simp: restart_scan_def api_result_Inl_iff)

text \<open>
  C25. After the election the recovery makes exactly the calls of the drain scan, and then, if restart surge
  is enabled, exactly those of the restart scan, whether or not the drain scan failed; without restart
  surge it makes no further call. Each scan aborts every orphan of the lists it got, in their order,
  whatever became of the abort before, and ends at a list that fails. Nothing panics.
\<close>

theorem elected_recovery_runs_both_scans:
  "emits (elected_recovery K cfg hasRestart) (\<lambda>r l. r = Inr () \<and>
     (\<exists>l1 l2. l = l1 @ l2 \<and> drain_scan K cfg l1 \<and> (if hasRestart then restart_scan K l2 else l2 = [])))"
  unfolding elected_recovery_def
  by (intro emits_bind emits_if emits_return emits_mono [OF emits_drain_scan] emits_mono [OF emits_restart_scan])
    (auto simp: no_panic_def split: sum.splits)

end
