(* ===== verification/Spec2Isabelle.thy ===== *)
theory Spec2Isabelle
  imports ComponentProperties Deadlines HistoryProperties Recovery
begin

text \<open>
  Verification of \<^verbatim>\<open>k8s-drain-surge\<close>, a Kubernetes controller that keeps a workload with a single
  replica available while its node is drained, and while Argo Rollouts restarts its pod.

  \<^bold>\<open>The program.\<close> A process (\<^verbatim>\<open>src/cmd/controller/main.go\<close>) parses its flags, sets a manager up,
  registers two reconcilers and, once elected leader, scans for operations left over by an earlier
  leader. The drain reconciler is called with the name of a node. For a node with a drain taint it
  resolves the pods on the node to their workloads (Argo Rollouts or Deployments) and drives, for each,
  a state machine kept in the workload's annotations: scale from one replica to two (or raise the
  minimum of the autoscaler), wait for a ready pod on another node, wait for the eviction from the
  drained node, scale back, clean up. An operation that takes too long, or whose node is gone or has
  lost its taint, is aborted. The restart reconciler does the same for a Rollout whose restart Argo
  cannot carry out, and yields to a drain. The two share the annotations that hold the original
  replica count and the autoscaler's minimum.

  \<^bold>\<open>Theories and sources\<close> (under \<^verbatim>\<open>src/internal/\<close> unless a path is given).

  \<^item> \<open>Prelude\<close>: machine integers, programs over a \<open>world\<close> with a trace of calls, the trace logic \<open>emits\<close>.
  \<^item> \<open>GoStd\<close>, \<open>GoTime\<close>: the part of Go's standard library the source uses: errors, \<open>strconv\<close>, and \<open>time\<close>
    with the RFC 3339 printer and parser; they end with the round trips the annotations rest on.
  \<^item> \<open>Config\<close>: \<^verbatim>\<open>config/config.go\<close>. \<open>Parse\<close> takes what the flag package read.
  \<^item> \<open>K8sApi\<close>: the API objects, with the fields the controller uses, the datatype \<open>api_call\<close> of
    client calls with their answers, and the record \<open>platform\<close> of everything behind the client.
  \<^item> \<open>DrainState\<close>: \<^verbatim>\<open>controller/state.go\<close>, the state names, annotation keys and their readers.
  \<^item> \<open>Workload\<close>: \<^verbatim>\<open>controller/workload.go\<close>; the Go interface is a datatype with a dispatch per
    method, its contract the locale \<open>drainable_workload\<close>, interpreted for both kinds and the sum.
  \<^item> \<open>RestartDetect\<close>: \<^verbatim>\<open>controller/restart_detect.go\<close>. \<open>Scaler\<close>: \<^verbatim>\<open>controller/scaler.go\<close>.
  \<^item> \<open>NodeController\<close>: \<^verbatim>\<open>controller/node_controller.go\<close>. \<open>RolloutController\<close>:
    \<^verbatim>\<open>controller/rollout_controller.go\<close>. One definition per method; a method whose body is long is
    split at a statement boundary (\<open>waitReady_check\<close>, \<open>drain_overrun\<close>, \<open>drain_dispatch\<close>,
    \<open>reconcileTaintedNode\<close> and their restart counterparts).
  \<^item> \<open>ManagerSetup\<close>: \<open>SetupWithManager\<close> of both controllers and the index keys of
    \<^verbatim>\<open>controller/logfields.go\<close>. \<open>ControllerMain\<close>: \<^verbatim>\<open>src/cmd/controller/main.go\<close>, a program that returns the exit
    status, with the recovery goroutine as a program of its own.
  \<^item> \<open>SurgeSpec\<close>: the abstract machine, \<open>surge_step\<close> on views of a workload. \<open>SurgeWrites\<close>: the writes
    of both controllers as functions on the workload and the locale \<open>surge_writer\<close>, which shows
    once that each is a step; \<open>NodeProofs\<close> and \<open>RolloutProofs\<close> interpret it and prove the trace
    specification of every handler.
  \<^item> \<open>Runs\<close>: successive reconciles of one workload; the locale \<open>staged_run\<close> says where a run gets whose
    reconciles are answered favourably or have nothing to write yet. \<open>Lifecycle\<close> and \<open>RestartLifecycle\<close>
    interpret it for the two controllers.
  \<^item> \<open>Journal\<close>: journals, the observations a controller makes in its reconciles along a history, and the locale
    \<open>journaled_surge\<close>, interpreted for both: what a state on record proves about the past.
  \<^item> \<open>Deadlines\<close>: runs with time, where a work queue calls a reconciler no later than it asked; the locale
    \<open>timed_surge\<close>, interpreted for both, bounds the age of an operation.
  \<^item> \<open>NodePass\<close>: one pass over a tainted node as the composition of the reconciles of its workloads.
    \<open>Recovery\<close>: the recovery after an election as the sequence of its lists and aborts.
  \<^item> \<open>MergePatch\<close>: the object the server holds after a patch. \<open>History\<close>: reachable states of a workload,
    where a controller may act on a stale read and the server merges its patch into the current object;
    the locale \<open>surge_controller\<close> extends \<open>surge_writer\<close>. \<open>JointHistory\<close>: all programs of the process at
    once (\<open>Reconcile\<close> of both controllers and the recovery), each run with all its reads and writes;
    \<open>HistoryProperties\<close> has what holds of these histories.
  \<^item> \<open>Scenario\<close>: an executable cluster on which the witnesses run the model.
  \<^item> \<open>DrainProperties\<close>, \<open>RestartProperties\<close>, \<open>ComponentProperties\<close>, \<open>Bookkeeping\<close>, \<open>RestartBookkeeping\<close>
    and this theory: the other properties.

  \<^bold>\<open>State and effects.\<close> The controllers keep no state of their own: it is in the annotations of the
  workloads. A function of the source that talks to the cluster is a program in the state monad
  over a \<open>world\<close>, an arbitrary environment \<open>'s\<close> with the trace of calls. The cluster is the argument
  \<open>K :: 's platform\<close>, about which nothing is assumed: a theorem of the form \<open>emits m Q\<close> holds whatever the
  cluster answers and whatever other actors do between two calls. Where a property needs something of the
  cluster, it is a hypothesis on the recorded answers (\<open>gone_node_aborts_all\<close> and
  \<open>tainted_node_reconciles_all\<close> need that Go's \<open>range\<close> visits every key; their conclusions are about the lists
  that succeeded, and about one workload for each namespace and name; the completion
  theorems that enough reconciles of the run are answered favourably, the timed ones that reconciles
  succeed and the work queue keeps its deadlines). An error return is \<open>Inl\<close>, a panic is
  the error \<open>Panic\<close>, and the refinement theorems show that none happens. All loops of the source range
  over lists and maps, so the definitions recurse structurally and no fuel is needed. The manager of controller-runtime is the argument
  \<open>mgr :: ('m, 's) manager\<close> of the startup code, in the same way; its trace records what is registered.

  \<^bold>\<open>What is shown.\<close> Each reconcile refines the abstract machine (C1, C2), over whole nodes (C3) and
  requests for a Rollout (C18), and over histories of one controller (C5) and of the whole process
  (C10, C40): while no restart surge is aborted in the middle of a drain, an abort restores one
  replica at any time; in every history a write keeps the replica count it read or sets one or two.
  A pass over a tainted node reconciles a workload for every namespace and name it finds (C7).
  Writes need their evidence: a start in the same reconcile (C4, C16, C17), ready and the scale-down
  in the journal of the operation (C8, C19).
  An operation ends: by its fifth favourable reconcile (C11, C12), by its timeout (C9),
  which bounds its age (C13, C14), with its node (C22), or by the scans after an election (C23 to C25); an
  abort restores the workload (C6, C30), and the annotations it needs stay readable (C15, C20). A restart
  surge yields to a drain (C21). The process starts in order and is wired to its indexes and event filter
  (C26 to C28). The building blocks meet their specifications (C29 to C35). C36 to C39
  state behaviour that deviates from the documentation or from what the surrounding code relies on, and C40
  what is left of the guarantees after one of these deviations: the abort of a restart surge, by the overrun
  check (C36) or by the recovery (C24), removes the record that a drain under way needs.

  \<^bold>\<open>Bounds.\<close> The completion theorems count favourable reconciles, not time: five is the number of
  states of the machine, and each favourable reconcile advances by one; any number of reconciles that find
  nothing to write may come between. Their runs, like the timed ones, read the object the previous
  reconcile wrote; stale reads are covered by the histories, which are about safety. The age of an
  operation is bounded by its timeout, the longest reconcile \<open>E\<close> and one requeue interval; the second that
  may take the place of a shorter timeout is the resolution of the recorded start.

  \<^bold>\<open>Not modelled.\<close> Log lines and their field names; the API server, the cache, the manager library, the
  Argo and Kubernetes type packages, which are the parameters \<open>K\<close> and \<open>mgr\<close>; scheme registration, logger
  setup, signal handling and flag syntax. Threads are not modelled
  either: between two calls of a reconcile anything may happen to the cluster, and a reconcile that overlaps
  another, by the other controller or for another node of the same workload, is one with a stale read.
\<close>

section \<open>Histories of a workload\<close>

text \<open>
  C5. In every state a workload can reach by writes of the drain controller, made from current or stale
  reads and merged by the server into what it then holds, interleaved with changes by others that leave
  the owned annotations alone: an operation under way is in one of the states scaled-up, ready,
  draining and done, has recorded one original replica, and an abort at that moment writes one
  replica. The states \<open>pending\<close> and unknown ones are never reached.
\<close>

theorem drain_history_restores_one:
  assumes "history AnnotationDrainState drainAnnotationKeys (drain_may_write K cfg) wl" "drain_state wl \<noteq> ''''"
  shows "drain_state wl \<in> {DrainStateScaledUp, DrainStateReady, DrainStateDraining, DrainStateDone} \<and>
     getOriginalReplicas (wl_annotations wl) = Inr 1 \<and> GetReplicas (drain_aborted wl) = 1"
  using drain_run.history_abort [OF assms] .

lemma demo_drain_step:
  "\<exists>wl. drain_may_write sim demo_config (DeploymentWorkload demo_deployment) wl \<and> drain_state wl = DrainStateScaledUp"
proof -
  let ?m = "reconcileWorkload sim demo_config (DeploymentWorkload demo_deployment) ''n1''"
  have "patched_to AnnotationDrainState DrainStateScaledUp (trace_of ?m demo_cluster)" by code_simp
  moreover have "patches_ok (drain_write (DeploymentWorkload demo_deployment)) (trace_of ?m demo_cluster)"
    using emits_run [OF drain_ok_reconcileWorkload] by (auto simp: drain_ok_def)
  ultimately obtain wl a where "drain_state wl = DrainStateScaledUp"
    "PatchObject (Object wl) (patch_of wl) a \<in> set (trace_of ?m demo_cluster)"
    using patched_toD by blast
  then show ?thesis unfolding drain_may_write_def using trace_of_run by blast
qed

lemma merged_state [simp]:
  "drain_state (merged (patch_of wl') wl) = drain_state wl'"
  "restart_state (merged (patch_of wl') wl) = restart_state wl'"
  using anno_get_merged_owned [of _ wl' wl] by simp_all

theorem drain_history_restores_one_witness:
  "\<exists>wl. history AnnotationDrainState drainAnnotationKeys (drain_may_write sim demo_config) wl \<and>
     drain_state wl = DrainStateScaledUp \<and> GetReplicas (drain_aborted wl) = 1"
proof -
  obtain wl' where wl': "drain_may_write sim demo_config (DeploymentWorkload demo_deployment) wl'"
    "drain_state wl' = DrainStateScaledUp" using demo_drain_step by blast
  let ?wl = "merged (patch_of wl') (DeploymentWorkload demo_deployment)"
  have h: "history AnnotationDrainState drainAnnotationKeys (drain_may_write sim demo_config) ?wl"
    using history.fresh [OF demo_fresh] history.fresh [OF demo_fresh] wl'(1) by (rule history.written)
  have "drain_state ?wl = DrainStateScaledUp" unfolding merged_state by (rule wl'(2))
  with drain_history_restores_one [OF h] h show ?thesis by (intro exI [of _ ?wl]) (simp del: wl_annotations_merged)
qed

text \<open>The same holds of the restart surge, under the keys it owns.\<close>

lemma restart_history_restores_one:
  assumes "history AnnotationRestartSurgeState restartSurgeFullKeys (restart_may_write K cfg now) wl"
    "restart_state wl \<noteq> ''''"
  shows "restart_state wl \<in> {DrainStateScaledUp, DrainStateReady, DrainStateDraining, DrainStateDone} \<and>
     getOriginalReplicas (wl_annotations wl) = Inr 1 \<and> GetReplicas (restart_aborted wl) = 1"
  using restart_run.history_abort [OF assms] .

section \<open>Startup\<close>

text \<open>
  C26. The process starts in a fixed order and stops at the first call that fails. With flags that do
  not parse to a valid configuration it exits with status 1 before any call. Otherwise it makes the
  calls of \<open>startup_steps\<close> (manager, probes, the three indexes, the drain controller and, exactly if
  restart surge is enabled, the restart controller); if one fails it exits with status 1 and makes no
  further call, else it launches the recovery with that configuration and runs the manager.
\<close>

theorem main_launches_validated:
  "emits (main mgr K fl) (\<lambda>code l. case Parse fl of
      Inl _ \<Rightarrow> code = 1 \<and> l = []
    | Inr cfg \<Rightarrow> Validate cfg = None \<and>
        stops_at_failure (serves cfg) (\<lambda>code. code = 1) (startup_steps K cfg) code l)"
  by (rule emits_mono [OF emits_main]) (auto split: sum.splits dest: Parse_InrD)

text \<open>
  C27. Once the manager runs, its controllers are wired to the indexes: every list by a field that the
  reconciler of a registered controller makes is by a kind and field for which an index was
  registered without error; and the nodes that an event on a pod, Rollout or Deployment enqueues at the
  drain controller are exactly the keys under which the index of that kind files the object.
\<close>

theorem watches_agree_with_indexes:
  "emits (main mgr K fl) (\<lambda>code l. \<forall>err spec a.
     StartManager err \<in> set l \<longrightarrow> CompleteController spec a \<in> set l \<longrightarrow>
     (\<forall>req. emits (cs_Reconciler spec req) (\<lambda>r l'.
        \<forall>c \<in> set l'. \<forall>k field. field_list c = Some (k, field) \<longrightarrow> (\<exists>ix. IndexField k field ix None \<in> set l))) \<and>
     (\<forall>k field f g. (k, MapObject f) \<in> set (cs_Watches spec) \<longrightarrow> IndexField k field (ObjectIndex g) None \<in> set l \<longrightarrow>
        (\<forall>obj. map req_Name (f obj) = g obj)) \<and>
     (\<forall>k field f g. (k, MapPod f) \<in> set (cs_Watches spec) \<longrightarrow> IndexField k field (PodIndex g) None \<in> set l \<longrightarrow>
        (\<forall>pod. map req_Name (f pod) = g pod)))"
proof (rule emits_mono [OF emits_main_serving], intro allI impI)
  fix code l err spec a
  assume serving: "\<forall>err. StartManager err \<in> set l \<longrightarrow> (\<exists>cfg. serving_calls K cfg l)"
    and start: "StartManager err \<in> set l" and spec: "CompleteController spec a \<in> set l"
  from serving start obtain cfg where l: "serving_calls K cfg l" by blast
  from serving_calls_indexes [OF l] serving_calls_watches [OF l spec]
  show "(\<forall>req. emits (cs_Reconciler spec req) (\<lambda>r l'.
        \<forall>c \<in> set l'. \<forall>k field. field_list c = Some (k, field) \<longrightarrow> (\<exists>ix. IndexField k field ix None \<in> set l))) \<and>
     (\<forall>k field f g. (k, MapObject f) \<in> set (cs_Watches spec) \<longrightarrow> IndexField k field (ObjectIndex g) None \<in> set l \<longrightarrow>
        (\<forall>obj. map req_Name (f obj) = g obj)) \<and>
     (\<forall>k field f g. (k, MapPod f) \<in> set (cs_Watches spec) \<longrightarrow> IndexField k field (PodIndex g) None \<in> set l \<longrightarrow>
        (\<forall>pod. map req_Name (f pod) = g pod))"
    by (intro conjI allI emits_mono [OF serving_calls_reconciler [OF l spec]]) blast+
qed

text \<open>A manager all of whose calls succeed, and the calls of a process started on it without flags.\<close>

definition quiet_manager :: "(unit, cluster) manager" where
  "quiet_manager = \<lparr>mgr_GetConfigOrDie = State_Monad.return None, mgr_NewManager = \<lambda>_. State_Monad.return None,
     mgr_AddHealthzCheck = \<lambda>_. State_Monad.return None, mgr_AddReadyzCheck = \<lambda>_. State_Monad.return None,
     mgr_IndexField = \<lambda>_ _ _. State_Monad.return None, mgr_Complete = \<lambda>_. State_Monad.return None,
     mgr_Start = State_Monad.return None\<rparr>"

definition quiet_calls :: "cluster mgr_call list" where
  "quiet_calls = trace (snd (run_state (main quiet_manager sim no_flags) \<lparr>env = (), trace = []\<rparr>))"

lemma quiet_calls_serve:
  "\<exists>cfg. StartManager None \<in> set quiet_calls \<and> CompleteController (node_controller_spec sim cfg) None \<in> set quiet_calls"
proof -
  obtain cfg where cfg: "Parse no_flags = Inr cfg" using Parse_no_flags by blast
  have "StartManager None \<in> set quiet_calls \<and> CompleteController (node_controller_spec sim cfg) None \<in> set quiet_calls"
    by (cases "RestartSurgeEnabled cfg") (simp_all add: quiet_calls_def main_def cfg main_run_def SetupWithManager_def
        restart_SetupWithManager_def unless_error_def quiet_manager_def)
  then show ?thesis by blast
qed

theorem watches_agree_with_indexes_witness:
  "\<exists>cfg. CompleteController (node_controller_spec sim cfg) None \<in> set quiet_calls \<and>
     emits (Reconcile sim cfg ''n1'') (\<lambda>r l'. \<forall>c \<in> set l'. \<forall>k field. field_list c = Some (k, field) \<longrightarrow>
        (\<exists>ix. IndexField k field ix None \<in> set quiet_calls))"
proof -
  obtain cfg where cfg: "StartManager None \<in> set quiet_calls"
    "CompleteController (node_controller_spec sim cfg) None \<in> set quiet_calls" using quiet_calls_serve by blast
  from emits_start [OF watches_agree_with_indexes [of quiet_manager sim no_flags], of "()"] cfg
  have "emits (cs_Reconciler (node_controller_spec sim cfg) \<lparr>req_Namespace = '''', req_Name = ''n1''\<rparr>)
      (\<lambda>r l'. \<forall>c \<in> set l'. \<forall>k field. field_list c = Some (k, field) \<longrightarrow>
        (\<exists>ix. IndexField k field ix None \<in> set quiet_calls))"
    unfolding quiet_calls_def by blast
  with cfg(2) show ?thesis by (auto simp: node_controller_spec_def)
qed

end
